theory Spec2Isabelle
  imports Complex_Main "HOL-Library.Char_ord" "HOL-Library.List_Lexorder"
begin

section \<open>The recency cache (class LRUCache)\<close>

text \<open>
  The cache wraps a JavaScript \<open>Map\<close>, whose iteration order is the order in which keys
  were first inserted.  It is modelled as an association list, oldest key first.
  \<open>Date.now()\<close> is an explicit argument \<open>now\<close> of every operation that reads the
  clock.  Numbers are mathematical integers.  Keys are values other than \<open>undefined\<close>
  (the class is used with string keys).
\<close>

record 'v CacheEntry =
  entry_value :: 'v
  timestamp :: int
  hits :: int

subsection \<open>The operations of Map the class uses\<close>

definition map_has :: "'k \<Rightarrow> ('k \<times> 'e) list \<Rightarrow> bool" where
  "map_has key m = (key \<in> set (map fst m))"

definition map_get :: "'k \<Rightarrow> ('k \<times> 'e) list \<Rightarrow> 'e option" where
  "map_get key m = map_of m key"

definition map_delete :: "'k \<Rightarrow> ('k \<times> 'e) list \<Rightarrow> ('k \<times> 'e) list" where
  "map_delete key m = filter (\<lambda>p. fst p \<noteq> key) m"

text \<open>\<open>Map.set\<close> keeps the position of a key that is present and appends a new one.\<close>

definition map_set :: "'k \<Rightarrow> 'e \<Rightarrow> ('k \<times> 'e) list \<Rightarrow> ('k \<times> 'e) list" where
  "map_set key e m =
     (if map_has key m then map (\<lambda>p. if fst p = key then (key, e) else p) m
      else m @ [(key, e)])"

subsection \<open>The class\<close>

record ('k, 'v) LRUCache =
  cache :: "('k \<times> 'v CacheEntry) list"
  maxSize :: int
  currentSize :: int

text \<open>The constructor.\<close>

definition new_LRUCache :: "int \<Rightarrow> ('k, 'v) LRUCache" where
  "new_LRUCache n = \<lparr>cache = [], maxSize = n, currentSize = 0\<rparr>"

text \<open>\<open>get\<close>: on a hit the entry is counted, re-stamped and moved to the end.\<close>

definition lru_get :: "'k \<Rightarrow> int \<Rightarrow> ('k, 'v) LRUCache \<Rightarrow> 'v option \<times> ('k, 'v) LRUCache" where
  "lru_get key now c =
     (case map_get key (cache c) of
        Some entry \<Rightarrow>
          (let entry' = entry\<lparr>hits := hits entry + 1, timestamp := now\<rparr>
           in (Some (entry_value entry'),
               c\<lparr>cache := map_set key entry' (map_delete key (cache c))\<rparr>))
      | None \<Rightarrow> (None, c))"

text \<open>
  \<open>set\<close>: drop an existing entry for the key, then evict the first key of the map when
  the counter has reached \<open>maxSize\<close> (\<open>keys().next().value\<close> is \<open>undefined\<close> on an empty
  map, and then nothing is evicted), then add the new entry.
\<close>

definition lru_set :: "'k \<Rightarrow> 'v \<Rightarrow> int \<Rightarrow> ('k, 'v) LRUCache \<Rightarrow> ('k, 'v) LRUCache" where
  "lru_set key v now c =
     (let c1 = (if map_has key (cache c)
                then c\<lparr>cache := map_delete key (cache c), currentSize := currentSize c - 1\<rparr>
                else c);
          c2 = (if currentSize c1 \<ge> maxSize c1
                then (case cache c1 of
                        [] \<Rightarrow> c1
                      | (firstKey, _) # _ \<Rightarrow>
                          c1\<lparr>cache := map_delete firstKey (cache c1),
                             currentSize := currentSize c1 - 1\<rparr>)
                else c1)
      in c2\<lparr>cache := map_set key \<lparr>entry_value = v, timestamp = now, hits = 0\<rparr> (cache c2),
            currentSize := currentSize c2 + 1\<rparr>)"

definition lru_has :: "'k \<Rightarrow> ('k, 'v) LRUCache \<Rightarrow> bool" where
  "lru_has key c = map_has key (cache c)"

definition lru_delete :: "'k \<Rightarrow> ('k, 'v) LRUCache \<Rightarrow> bool \<times> ('k, 'v) LRUCache" where
  "lru_delete key c =
     (let deleted = map_has key (cache c);
          c' = c\<lparr>cache := map_delete key (cache c)\<rparr>
      in if deleted then (True, c'\<lparr>currentSize := currentSize c' - 1\<rparr>) else (False, c'))"

definition lru_clear :: "('k, 'v) LRUCache \<Rightarrow> ('k, 'v) LRUCache" where
  "lru_clear c = c\<lparr>cache := [], currentSize := 0\<rparr>"

definition lru_size :: "('k, 'v) LRUCache \<Rightarrow> int" where
  "lru_size c = currentSize c"

definition lru_entries :: "('k, 'v) LRUCache \<Rightarrow> ('k \<times> 'v CacheEntry) list" where
  "lru_entries c = cache c"

definition lru_keys :: "('k, 'v) LRUCache \<Rightarrow> 'k list" where
  "lru_keys c = map fst (cache c)"

text \<open>
  \<open>cleanup\<close> walks the entries and deletes each one older than the cutoff.  Deleting the
  entry just visited does not disturb the iteration of a \<open>Map\<close>, so the walk sees the
  entries the map held when it started.
\<close>

definition cleanup_step ::
  "int \<Rightarrow> 'k \<times> 'v CacheEntry \<Rightarrow> ('k, 'v) LRUCache \<times> int \<Rightarrow> ('k, 'v) LRUCache \<times> int" where
  "cleanup_step cutoffTime p st =
     (if timestamp (snd p) < cutoffTime
      then (snd (lru_delete (fst p) (fst st)), snd st + 1)
      else st)"

definition lru_cleanup :: "int \<Rightarrow> int \<Rightarrow> ('k, 'v) LRUCache \<Rightarrow> int \<times> ('k, 'v) LRUCache" where
  "lru_cleanup maxAge now c =
     (let cutoffTime = now - maxAge;
          r = fold (cleanup_step cutoffTime) (cache c) (c, 0)
      in (snd r, fst r))"

text \<open>\<open>getStats\<close>; the quotient is an exact rational.\<close>

record 'k StatsEntry =
  se_key :: 'k
  se_hits :: int
  se_age :: int

record 'k Stats =
  stats_size :: int
  stats_maxSize :: int
  hitRate :: rat
  stats_entries :: "'k StatsEntry list"

definition getStats :: "int \<Rightarrow> ('k, 'v) LRUCache \<Rightarrow> 'k Stats" where
  "getStats now c =
     (let entries = lru_entries c;
          totalHits = fold (\<lambda>p sum. sum + hits (snd p)) entries 0;
          totalAccess = totalHits + (maxSize c - int (length (cache c)))
      in \<lparr>stats_size = currentSize c,
          stats_maxSize = maxSize c,
          hitRate = (if totalAccess > 0 then of_int totalHits / of_int totalAccess else 0),
          stats_entries =
            map (\<lambda>p. \<lparr>se_key = fst p, se_hits = hits (snd p), se_age = now - timestamp (snd p)\<rparr>)
              entries\<rparr>)"

subsection \<open>Sequences of operations\<close>

datatype ('k, 'v) cache_op =
    Get 'k int
  | Set 'k 'v int
  | Has 'k
  | Delete 'k
  | Clear
  | Cleanup int int

fun exec_op :: "('k, 'v) cache_op \<Rightarrow> ('k, 'v) LRUCache \<Rightarrow> ('k, 'v) LRUCache" where
  "exec_op (Get key now) c = snd (lru_get key now c)"
| "exec_op (Set key v now) c = lru_set key v now c"
| "exec_op (Has key) c = c"
| "exec_op (Delete key) c = snd (lru_delete key c)"
| "exec_op Clear c = lru_clear c"
| "exec_op (Cleanup maxAge now) c = snd (lru_cleanup maxAge now c)"

definition exec_ops :: "('k, 'v) cache_op list \<Rightarrow> ('k, 'v) LRUCache \<Rightarrow> ('k, 'v) LRUCache" where
  "exec_ops ops c = fold exec_op ops c"

subsection \<open>Auxiliary notions for the proofs\<close>

text \<open>
  The keys of the map are distinct, as the keys of a \<open>Map\<close> are, and the counter is the
  number of entries.
\<close>

definition lru_inv :: "('k, 'v) LRUCache \<Rightarrow> bool" where
  "lru_inv c = (distinct (map fst (cache c)) \<and> currentSize c = int (length (cache c)))"

text \<open>A run of \<open>set\<close> calls, each with its key, value and clock reading.\<close>

definition set_all :: "('k \<times> 'v \<times> int) list \<Rightarrow> ('k, 'v) LRUCache \<Rightarrow> ('k, 'v) LRUCache" where
  "set_all kvs c = fold (\<lambda>kv. lru_set (fst kv) (fst (snd kv)) (snd (snd kv))) kvs c"

text \<open>The last \<open>n\<close> elements of a list.\<close>

definition lastn :: "nat \<Rightarrow> 'a list \<Rightarrow> 'a list" where
  "lastn n xs = drop (length xs - n) xs"

text \<open>
  The map never holds more than \<open>maxSize\<close> entries, or one entry when \<open>maxSize\<close> is
  below one (a new key is always admitted).
\<close>

definition lru_bounded :: "('k, 'v) LRUCache \<Rightarrow> bool" where
  "lru_bounded c = (lru_inv c \<and> int (length (cache c)) \<le> max 1 (maxSize c))"

text \<open>No hit counter is negative.\<close>

definition hits_nonneg :: "('k, 'v) LRUCache \<Rightarrow> bool" where
  "hits_nonneg c = list_all (\<lambda>p. 0 \<le> hits (snd p)) (cache c)"

text \<open>
  The hit rate in the words of the specification: \<open>totalHits / (totalHits + (maxSize -
  live))\<close>, and 0 when that denominator is 0.
\<close>

definition spec_hitRate :: "('k, 'v) LRUCache \<Rightarrow> rat" where
  "spec_hitRate c =
     (let totalHits = sum_list (map (\<lambda>p. hits (snd p)) (cache c));
          denominator = totalHits + (maxSize c - int (length (cache c)))
      in if denominator = 0 then 0 else of_int totalHits / of_int denominator)"

section \<open>Strings\<close>

text \<open>
  A string is a list of 8-bit characters, read as the code units \<open>0..255\<close> (Latin-1).
  The string methods of the JavaScript runtime that the code calls are written out on
  that range.  White space is what \<open>trim\<close> strips and \<open>\s\<close> matches: tab, line
  feed, vertical tab, form feed, carriage return, space and no-break space.
\<close>

definition isWhitespace :: "char \<Rightarrow> bool" where
  "isWhitespace c = (let n = (of_char c :: nat) in (9 \<le> n \<and> n \<le> 13) \<or> n = 32 \<or> n = 160)"

definition lower_char :: "char \<Rightarrow> char" where
  "lower_char c =
     (let n = (of_char c :: nat)
      in if (65 \<le> n \<and> n \<le> 90) \<or> (192 \<le> n \<and> n \<le> 222 \<and> n \<noteq> 215)
         then char_of (n + 32) else c)"

definition toLowerCase :: "string \<Rightarrow> string" where
  "toLowerCase s = map lower_char s"

definition trim :: "string \<Rightarrow> string" where
  "trim s = rev (dropWhile isWhitespace (rev (dropWhile isWhitespace s)))"

text \<open>
  \<open>s.split(/\s+/)\<close>: the pieces between maximal runs of white space.  A run at either
  end of the string leaves an empty piece there, and the empty string has one empty piece.
\<close>

fun split_ws :: "string \<Rightarrow> string list" where
  "split_ws [] = [[]]"
| "split_ws (c # cs) =
     (if isWhitespace c
      then (case cs of
              [] \<Rightarrow> [[], []]
            | d # _ \<Rightarrow> if isWhitespace d then split_ws cs else [] # split_ws cs)
      else (case split_ws cs of
              [] \<Rightarrow> [[c]]
            | w # ws \<Rightarrow> (c # w) # ws))"

text \<open>\<open>xs.join(sep)\<close>\<close>

fun join :: "string \<Rightarrow> string list \<Rightarrow> string" where
  "join sep [] = []"
| "join sep [x] = x"
| "join sep (x # y # ys) = x @ sep @ join sep (y # ys)"

section \<open>Numbers and the runtime\<close>

subsection \<open>Sums of doubles\<close>

text \<open>
  A number of the program is a double.  The model covers the doubles with an integer
  value and the two infinities: a number is an integer of size at most \<open>2^1024\<close>, and
  \<open>2^1024\<close> and \<open>-2^1024\<close> stand for \<open>Infinity\<close> and \<open>-Infinity\<close>.  A sum is rounded as
  the hardware rounds it: to the nearest double, a tie to the one with the even mantissa,
  and beyond the largest double to infinity.  A sum below \<open>2^53\<close> in size is exact.
\<close>

function bitlen :: "int \<Rightarrow> nat" where
  "bitlen n = (if n \<le> 0 then 0 else Suc (bitlen (n div 2)))"
  by pat_completeness auto
termination
  by (relation "measure nat") auto

declare bitlen.simps [simp del]

definition Infinity :: int where
  "Infinity = 2 ^ 1024"

definition round_to_double :: "int \<Rightarrow> int" where
  "round_to_double x =
     (let a = \<bar>x\<bar>
      in if a < 2 ^ 53 then x
         else
           (let e = bitlen a - 53;
                q = 2 ^ e;
                m = a div q;
                r = a mod q;
                m' = (if 2 * r > q \<or> (2 * r = q \<and> odd m) then m + 1 else m)
            in sgn x * min (m' * q) Infinity))"

text \<open>
  The running total of the budget loop is a number that can also be \<open>NaN\<close>: the sum of
  the two infinities of opposite sign.  \<open>NaN\<close> stays \<open>NaN\<close> under every sum, and is not
  greater than any number.
\<close>

datatype number = Num int | NaN

definition js_add :: "number \<Rightarrow> int \<Rightarrow> number" where
  "js_add a b =
     (case a of
        NaN \<Rightarrow> NaN
      | Num x \<Rightarrow>
          if \<bar>x\<bar> \<ge> Infinity
          then (if \<bar>b\<bar> \<ge> Infinity \<and> sgn b \<noteq> sgn x then NaN else Num x)
          else if \<bar>b\<bar> \<ge> Infinity then Num b
          else Num (round_to_double (x + b)))"

definition js_gt :: "number \<Rightarrow> int \<Rightarrow> bool" where
  "js_gt a m = (case a of NaN \<Rightarrow> False | Num x \<Rightarrow> x > m)"

subsection \<open>What the runtime decides\<close>

text \<open>
  Two functions the code calls are the runtime's and are parameters of the model:
  \<open>String.prototype.localeCompare\<close>, which collates two strings by the rules of the
  runtime's locale, and the conversion of a number to a string inside a template
  literal.
\<close>

record Runtime =
  localeCompare :: "string \<Rightarrow> string \<Rightarrow> int"
  numberToString :: "number \<Rightarrow> string"

text \<open>
  The language asks of \<open>localeCompare\<close> that it is a consistent comparison: \<open>a\<close> is
  before \<open>b\<close> exactly when \<open>b\<close> is after \<open>a\<close>, and the order is transitive.
\<close>

definition consistent_comparison :: "('a \<Rightarrow> 'a \<Rightarrow> int) \<Rightarrow> bool" where
  "consistent_comparison cmp =
     ((\<forall>a b. (cmp a b < 0) = (cmp b a > 0))
      \<and> (\<forall>a b c. cmp a b \<le> 0 \<and> cmp b c \<le> 0 \<longrightarrow> cmp a c \<le> 0))"

subsection \<open>A runtime for the examples\<close>

text \<open>
  The decimal digits of an integer: what the runtime prints for a safe integer (one below
  \<open>2^53\<close> in size).  The examples print no other number.
\<close>

fun digits :: "nat \<Rightarrow> string" where
  "digits n = (if n < 10 then [char_of (48 + n)] else digits (n div 10) @ [char_of (48 + n mod 10)])"

definition decimal :: "int \<Rightarrow> string" where
  "decimal i = (if i < 0 then CHR ''-'' # digits (nat (- i)) else digits (nat i))"

text \<open>
  A collation that compares alphabetically first, whatever the case, and puts lower case
  before upper case where that leaves a tie.  On strings of ASCII letters this is how the
  runtime's default collation orders: \<open>a\<close> is before \<open>B\<close>, and \<open>b\<close> is before \<open>B\<close>.  The
  examples compare no other strings.
\<close>

definition alphabetic_compare :: "string \<Rightarrow> string \<Rightarrow> int" where
  "alphabetic_compare a b =
     (if toLowerCase a < toLowerCase b then - 1
      else if toLowerCase b < toLowerCase a then 1
      else if b < a then - 1
      else if a = b then 0
      else 1)"

definition number_string :: "number \<Rightarrow> string" where
  "number_string n = (case n of NaN \<Rightarrow> ''NaN'' | Num i \<Rightarrow> decimal i)"

definition example_runtime :: Runtime where
  "example_runtime = \<lparr>localeCompare = alphabetic_compare, numberToString = number_string\<rparr>"

section \<open>Arrays\<close>

text \<open>
  \<open>Array.prototype.sort\<close> with a comparator is stable: of two elements the comparator
  does not separate, the one that came first stays first.  Only the sign of the
  comparator's result is used.  For a consistent comparator the sorted array is
  determined, and insertion from the right end computes it.
\<close>

fun insert_sorted :: "('a \<Rightarrow> 'a \<Rightarrow> int) \<Rightarrow> 'a \<Rightarrow> 'a list \<Rightarrow> 'a list" where
  "insert_sorted cmp x [] = [x]"
| "insert_sorted cmp x (y # ys) =
     (if cmp x y \<le> 0 then x # y # ys else y # insert_sorted cmp x ys)"

definition array_sort :: "('a \<Rightarrow> 'a \<Rightarrow> int) \<Rightarrow> 'a list \<Rightarrow> 'a list" where
  "array_sort cmp xs = foldr (insert_sorted cmp) xs []"

text \<open>\<open>Array.from(new Set(xs))\<close>: the distinct elements, each at its first occurrence.\<close>

definition array_from_set :: "'a list \<Rightarrow> 'a list" where
  "array_from_set xs = fold (\<lambda>x acc. if x \<in> set acc then acc else acc @ [x]) xs []"

section \<open>The token estimator (class TokenCounter)\<close>

definition CHARS_PER_TOKEN :: rat where
  "CHARS_PER_TOKEN = 4"

definition TOKENS_PER_WORD :: rat where
  "TOKENS_PER_WORD = 3 / 4"

definition estimate :: "string \<Rightarrow> int" where
  "estimate txt =
     (if length txt = 0 then 0
      else
        (let charEstimate = \<lceil>of_nat (length txt) / CHARS_PER_TOKEN\<rceil>;
             words = filter (\<lambda>w. length w > 0) (split_ws txt);
             wordEstimate = \<lceil>of_nat (length words) * TOKENS_PER_WORD\<rceil>
         in max charEstimate wordEstimate))"

definition estimateMultiple :: "string list \<Rightarrow> int" where
  "estimateMultiple texts = fold (\<lambda>txt total. total + estimate txt) texts 0"

section \<open>The budgeted section formatter (class ContextFormatter)\<close>

record ContextSection =
  id_str :: string
  content :: string
  priority :: int
  tokens :: int
  source :: string

record FormatOptions =
  maxTokens :: int
  includeTokens :: bool
  includeMetadata :: bool
  separator :: "string option"

record FormatMetadata =
  totalItems :: nat
  includedItems :: nat
  excludedItems :: nat
  sources :: "string list"

record FormattedOutput =
  formatted :: string
  usedTokens :: number
  sections :: "ContextSection list"
  metadata :: "FormatMetadata option"

text \<open>\<open>calculateSimilarity\<close>: 1 on equal normal forms, 0 when one is empty, else Jaccard.\<close>

definition calculateSimilarity :: "string \<Rightarrow> string \<Rightarrow> rat" where
  "calculateSimilarity str1 str2 =
     (let s1 = trim (toLowerCase str1);
          s2 = trim (toLowerCase str2)
      in if s1 = s2 then 1
         else if length s1 = 0 \<or> length s2 = 0 then 0
         else
           (let words1 = remdups (split_ws s1);
                words2 = remdups (split_ws s2);
                intersection = remdups (filter (\<lambda>x. x \<in> set words2) words1);
                union = remdups (words1 @ words2)
            in of_nat (length intersection) / of_nat (length union)))"

text \<open>
  \<open>deduplicate\<close>: one pass that carries the normal forms seen and the sections kept.
\<close>

definition dedup_step ::
  "ContextSection \<Rightarrow> string list \<times> ContextSection list \<Rightarrow> string list \<times> ContextSection list" where
  "dedup_step sec st =
     (let seen = fst st;
          deduplicated = snd st;
          normalized = trim (toLowerCase (content sec))
      in if normalized \<in> set seen then st
         else if list_ex (\<lambda>s. calculateSimilarity (content s) (content sec) > 85 / 100) deduplicated
         then st
         else (seen @ [normalized], deduplicated @ [sec]))"

definition deduplicate :: "ContextSection list \<Rightarrow> ContextSection list" where
  "deduplicate secs = snd (fold dedup_step secs ([], []))"

text \<open>
  The comparator handed to \<open>sort\<close>.  The difference of two distinct doubles has the
  sign of the exact difference, and the sign is all that \<open>sort\<close> reads.
\<close>

definition compareSections :: "Runtime \<Rightarrow> ContextSection \<Rightarrow> ContextSection \<Rightarrow> int" where
  "compareSections rt a b =
     (if priority b \<noteq> priority a then priority b - priority a
      else localeCompare rt (id_str b) (id_str a))"

text \<open>
  The budget loop: its state is \<open>usedTokens\<close>, \<open>included\<close> and \<open>excluded\<close>.  The sum
  \<open>usedTokens + section.tokens\<close> is a sum of doubles, in the test and in the update.
\<close>

record Selection =
  sel_usedTokens :: number
  sel_included :: "ContextSection list"
  sel_excluded :: "ContextSection list"

definition select_step :: "int \<Rightarrow> ContextSection \<Rightarrow> Selection \<Rightarrow> Selection" where
  "select_step maxT sec st =
     (if js_gt (js_add (sel_usedTokens st) (tokens sec)) maxT
      then st\<lparr>sel_excluded := sel_excluded st @ [sec]\<rparr>
      else st\<lparr>sel_usedTokens := js_add (sel_usedTokens st) (tokens sec),
              sel_included := sel_included st @ [sec]\<rparr>)"

definition select_sections :: "int \<Rightarrow> ContextSection list \<Rightarrow> Selection" where
  "select_sections maxT deduplicated =
     fold (select_step maxT) deduplicated
       \<lparr>sel_usedTokens = Num 0, sel_included = [], sel_excluded = []\<rparr>"

definition render_section ::
  "Runtime \<Rightarrow> bool \<Rightarrow> bool \<Rightarrow> string \<Rightarrow> ContextSection \<Rightarrow> string \<Rightarrow> string" where
  "render_section rt inclMetadata inclTokens sep sec acc =
     acc @ content sec
       @ (if inclMetadata then '' ['' @ source sec @ '']'' else [])
       @ (if inclTokens then '' ['' @ numberToString rt (Num (tokens sec)) @ ''t]'' else [])
       @ sep"

definition format :: "Runtime \<Rightarrow> ContextSection list \<Rightarrow> FormatOptions \<Rightarrow> FormattedOutput" where
  "format rt secs options =
     (let sep = (case separator options of None \<Rightarrow> [CHR 0x0A, CHR 0x0A] | Some s \<Rightarrow> s);
          sorted_secs = array_sort (compareSections rt) secs;
          deduplicated = deduplicate sorted_secs;
          sel = select_sections (maxTokens options) deduplicated;
          body = fold (render_section rt (includeMetadata options) (includeTokens options) sep)
                   (sel_included sel) [];
          summary = (if includeTokens options
                     then body @ [CHR 0x0A] @ ''Total: '' @ numberToString rt (sel_usedTokens sel)
                            @ ''/'' @ numberToString rt (Num (maxTokens options)) @ '' tokens''
                     else body);
          md = \<lparr>totalItems = length deduplicated,
                includedItems = length (sel_included sel),
                excludedItems = length (sel_excluded sel),
                sources = array_from_set (map source (sel_included sel))\<rparr>
      in \<lparr>formatted = trim summary,
          usedTokens = sel_usedTokens sel,
          sections = sel_included sel,
          metadata = (if includeMetadata options then Some md else None)\<rparr>)"

definition createSection :: "string \<Rightarrow> string \<Rightarrow> string \<Rightarrow> int \<Rightarrow> ContextSection" where
  "createSection i c src p =
     \<lparr>id_str = i, content = c, priority = p, tokens = estimate c, source = src\<rparr>"

subsection \<open>The formatter in the words of the specification\<close>

text \<open>
  The order of the sort step as the specification words it: a section goes before another
  when its priority is higher, or the priorities are equal and its id is the later one in
  lexicographic order (the order of the code units).
\<close>

definition goes_before :: "ContextSection \<Rightarrow> ContextSection \<Rightarrow> bool" where
  "goes_before a b =
     (priority a > priority b \<or> (priority a = priority b \<and> id_str a \<ge> id_str b))"

text \<open>
  The order of the sort step with the collation of the runtime in the place of the
  lexicographic order: among equal priorities, the id of the first does not collate before
  the id of the second.
\<close>

definition collates_before :: "Runtime \<Rightarrow> ContextSection \<Rightarrow> ContextSection \<Rightarrow> bool" where
  "collates_before rt a b =
     (priority a > priority b
      \<or> (priority a = priority b \<and> localeCompare rt (id_str b) (id_str a) \<le> 0))"

text \<open>
  The budget rule, in exact integers: walking the list in order, a section is accepted when the tokens used
  so far plus its own do not exceed the budget, and skipped otherwise; the walk goes on
  either way.
\<close>

fun greedy_fit :: "int \<Rightarrow> int \<Rightarrow> ContextSection list \<Rightarrow> ContextSection list" where
  "greedy_fit maxT used [] = []"
| "greedy_fit maxT used (s # rest) =
     (if used + tokens s \<le> maxT then s # greedy_fit maxT (used + tokens s) rest
      else greedy_fit maxT used rest)"

section \<open>The backend client (class SupermemoryClient)\<close>

text \<open>
  The Supermemory SDK is the external collaborator.  A call either returns a response or
  throws; what is thrown is an \<open>Error\<close> with its message, or some other value.  The SDK
  object is a record of its four operations, each a function of the parameter object it
  is handed.
\<close>

datatype thrown = Error string | NonError

definition error_message :: "thrown \<Rightarrow> string" where
  "error_message e = (case e of Error m \<Rightarrow> m | NonError \<Rightarrow> ''Unknown error'')"

text \<open>
  The logger is pluggable: a record of its four methods.  A call hands over strings and
  caught values, and returns (\<open>None\<close>) or throws (\<open>Some\<close> of what it throws).
\<close>

datatype log_arg = Str string | Err thrown

record Logger =
  lg_info :: "log_arg list \<Rightarrow> thrown option"
  lg_error :: "log_arg list \<Rightarrow> thrown option"
  lg_warn :: "log_arg list \<Rightarrow> thrown option"
  lg_debug :: "log_arg list \<Rightarrow> thrown option"

record ProfileParams =
  pp_containerTag :: string
  pp_q :: "string option"

record 'm AddParams =
  ap_content :: string
  ap_containerTag :: string
  ap_metadata :: "'m option"

record MemoriesParams =
  mp_q :: string
  mp_containerTag :: string
  mp_threshold :: "rat option"
  mp_limit :: int

record DocumentsParams =
  dp_q :: string
  dp_containerTags :: "string list"
  dp_limit :: int

record MemoryResult =
  memory :: "string option"
  score :: rat

record ProfileData =
  static :: "string list"
  dynamic :: "string list"

record SupermemoryProfile =
  profile :: ProfileData
  searchResults :: "MemoryResult list option"

record ('m, 'a, 'd) Supermemory =
  sdk_profile :: "ProfileParams \<Rightarrow> thrown + SupermemoryProfile"
  sdk_add :: "'m AddParams \<Rightarrow> thrown + 'a"
  sdk_search_memories :: "MemoriesParams \<Rightarrow> thrown + MemoryResult list"
  sdk_search_documents :: "DocumentsParams \<Rightarrow> thrown + 'd"

text \<open>The client object: the SDK object (\<open>this.client\<close>) and the logger.\<close>

record ('m, 'a, 'd) SupermemoryClient =
  cl_client :: "('m, 'a, 'd) Supermemory"
  cl_logger :: Logger

text \<open>\<open>tag.replace(/[^a-zA-Z0-9_-]/g, '')\<close>: every code unit outside the class is dropped.\<close>

definition isTagChar :: "char \<Rightarrow> bool" where
  "isTagChar c =
     (let n = (of_char c :: nat)
      in (97 \<le> n \<and> n \<le> 122) \<or> (65 \<le> n \<and> n \<le> 90) \<or> (48 \<le> n \<and> n \<le> 57)
         \<or> c = CHR ''_'' \<or> c = CHR ''-'')"

definition sanitizeContainerTag :: "string \<Rightarrow> string" where
  "sanitizeContainerTag tag = filter isTagChar tag"

text \<open>
  The shape of every client method: inside a \<open>try\<close>, a debug line and then the SDK call,
  whose result is returned; in the \<open>catch\<close>, an error line with what was caught, and then
  an \<open>Error\<close> with a fixed prefix and the message of what was caught.  Whatever a logger
  call throws takes the place of a normal outcome.
\<close>

definition client_call ::
  "Logger \<Rightarrow> string \<Rightarrow> string \<Rightarrow> string \<Rightarrow> thrown + 'r \<Rightarrow> thrown + 'r" where
  "client_call lg debugLine errorLine prefix sdk_result =
     (let attempt = (case lg_debug lg [Str debugLine] of
                       Some e \<Rightarrow> Inl e
                     | None \<Rightarrow> sdk_result)
      in case attempt of
           Inr result \<Rightarrow> Inr result
         | Inl error \<Rightarrow>
             (case lg_error lg [Str errorLine, Err error] of
                Some e \<Rightarrow> Inl e
              | None \<Rightarrow> Inl (Error (prefix @ error_message error))))"

text \<open>\<open>limit || 5\<close>: an absent or zero limit becomes 5.\<close>

definition limit_or_5 :: "int option \<Rightarrow> int" where
  "limit_or_5 limit = (case limit of None \<Rightarrow> 5 | Some l \<Rightarrow> if l = 0 then 5 else l)"

definition getProfile ::
  "('m, 'a, 'd) SupermemoryClient \<Rightarrow> string \<Rightarrow> string option \<Rightarrow> rat option
    \<Rightarrow> thrown + SupermemoryProfile" where
  "getProfile this containerTag query threshold =
     client_call (cl_logger this) (''Fetching profile for '' @ containerTag)
       ''Error fetching profile:'' ''Failed to fetch profile: ''
       (sdk_profile (cl_client this)
          \<lparr>pp_containerTag = sanitizeContainerTag containerTag, pp_q = query\<rparr>)"

definition addMemory ::
  "('m, 'a, 'd) SupermemoryClient \<Rightarrow> string \<Rightarrow> string \<Rightarrow> 'm option \<Rightarrow> thrown + 'a" where
  "addMemory this c containerTag md =
     client_call (cl_logger this) (''Adding memory for '' @ containerTag)
       ''Error adding memory:'' ''Failed to add memory: ''
       (sdk_add (cl_client this)
          \<lparr>ap_content = c, ap_containerTag = sanitizeContainerTag containerTag,
           ap_metadata = md\<rparr>)"

definition searchMemories ::
  "('m, 'a, 'd) SupermemoryClient \<Rightarrow> string \<Rightarrow> string \<Rightarrow> rat option \<Rightarrow> int option
    \<Rightarrow> thrown + MemoryResult list" where
  "searchMemories this query containerTag threshold limit =
     client_call (cl_logger this) (''Searching memories: '' @ query @ '' in '' @ containerTag)
       ''Error searching memories:'' ''Failed to search memories: ''
       (sdk_search_memories (cl_client this)
          \<lparr>mp_q = query, mp_containerTag = sanitizeContainerTag containerTag,
           mp_threshold = threshold, mp_limit = limit_or_5 limit\<rparr>)"

definition searchDocuments ::
  "('m, 'a, 'd) SupermemoryClient \<Rightarrow> string \<Rightarrow> string list \<Rightarrow> int option \<Rightarrow> thrown + 'd" where
  "searchDocuments this query containerTags limit =
     client_call (cl_logger this)
       (''Searching documents: '' @ query @ '' in '' @ join '', '' containerTags)
       ''Error searching documents:'' ''Failed to search documents: ''
       (sdk_search_documents (cl_client this)
          \<lparr>dp_q = query, dp_containerTags = map (\<lambda>tag. sanitizeContainerTag tag) containerTags,
           dp_limit = limit_or_5 limit\<rparr>)"

text \<open>The character class \<open>[A-Za-z0-9_-]\<close> of the specification, spelled out.\<close>

definition tag_class :: string where
  "tag_class = ''abcdefghijklmnopqrstuvwxyzABCDEFGHIJKLMNOPQRSTUVWXYZ0123456789_-''"

section \<open>The context assembler (class VapiMemory)\<close>

record VapiMemoryOptions =
  opt_maxTokens :: int
  searchThreshold :: rat
  cacheEnabled :: bool
  cacheTTL :: int
  opt_logger :: Logger

record GetContextRequest =
  userId :: string
  query :: "string option"
  callId :: "string option"
  includeProfile :: "bool option"
  includeRecent :: "bool option"
  includeSearch :: "bool option"
  req_maxTokens :: "int option"

record ContextMetadata =
  md_userId :: string
  retrievalTime :: int
  md_sources :: "string list"

record FormattedContext =
  fc_profile :: "ProfileData option"
  recentMemories :: "string list"
  fc_searchResults :: "string list"
  totalTokens :: int
  fc_metadata :: ContextMetadata

record ('m, 'a, 'd) VapiMemory =
  client :: "('m, 'a, 'd) SupermemoryClient"
  options :: VapiMemoryOptions
  profileCache :: "(string, SupermemoryProfile) LRUCache"

text \<open>The readings of the clock one call of \<open>getContext\<close> can make, in order.\<close>

record Clock =
  startTime :: int
  cacheGetTime :: int
  cacheSetTime :: int
  endTime :: int

text \<open>\<open>x !== false\<close> for an optional flag, and the truth value of an optional string.\<close>

definition not_false :: "bool option \<Rightarrow> bool" where
  "not_false b = (b \<noteq> Some False)"

definition truthy :: "string option \<Rightarrow> bool" where
  "truthy s = (case s of None \<Rightarrow> False | Some t \<Rightarrow> t \<noteq> [])"

text \<open>\<open>results.filter(r => r.memory !== undefined).map(r => r.memory!)\<close>\<close>

definition memories_of :: "MemoryResult list \<Rightarrow> string list" where
  "memories_of rs = map (\<lambda>r. the (memory r)) (filter (\<lambda>r. memory r \<noteq> None) rs)"

text \<open>
  The state the body of \<open>getContext\<close> works on: the context under construction, the
  local \<open>sources\<close> and the object itself (for its cache).
\<close>

record ('m, 'a, 'd) Assembly =
  asm_context :: FormattedContext
  asm_sources :: "string list"
  asm_this :: "('m, 'a, 'd) VapiMemory"

text \<open>Profile tokens and the search results a profile response carries.\<close>

definition take_profile ::
  "GetContextRequest \<Rightarrow> SupermemoryProfile \<Rightarrow> ('m, 'a, 'd) Assembly \<Rightarrow> ('m, 'a, 'd) Assembly" where
  "take_profile request p st =
     (let ctx1 = (asm_context st)\<lparr>fc_profile := Some \<lparr>static = static (profile p), dynamic = dynamic (profile p)\<rparr>\<rparr>;
          ctx2 = ctx1\<lparr>totalTokens := totalTokens ctx1 + estimateMultiple (static (profile p))\<rparr>;
          ctx3 = ctx2\<lparr>totalTokens := totalTokens ctx2 + estimateMultiple (dynamic (profile p))\<rparr>
      in case searchResults p of
           Some rs \<Rightarrow>
             if not_false (includeSearch request)
             then (let ctx4 = ctx3\<lparr>fc_searchResults := memories_of rs\<rparr>;
                       ctx5 = ctx4\<lparr>totalTokens := totalTokens ctx4 + estimateMultiple (fc_searchResults ctx4)\<rparr>
                   in st\<lparr>asm_context := ctx5, asm_sources := asm_sources st @ [''search'']\<rparr>)
             else st\<lparr>asm_context := ctx3\<rparr>
         | None \<Rightarrow> st\<lparr>asm_context := ctx3\<rparr>)"

text \<open>
  A step of the body either goes on with the state, or throws: then the outer \<open>catch\<close>
  gets what was thrown, and the object is as the step left it.
\<close>

type_synonym ('m, 'a, 'd) outcome = "(thrown \<times> ('m, 'a, 'd) VapiMemory) + ('m, 'a, 'd) Assembly"

definition and_then ::
  "('m, 'a, 'd) outcome \<Rightarrow> (('m, 'a, 'd) Assembly \<Rightarrow> ('m, 'a, 'd) outcome) \<Rightarrow> ('m, 'a, 'd) outcome" where
  "and_then r f = (case r of Inl x \<Rightarrow> Inl x | Inr st \<Rightarrow> f st)"

text \<open>Step 1: the cache, when caching is enabled; a hit is logged first.\<close>

definition check_cache ::
  "Clock \<Rightarrow> GetContextRequest \<Rightarrow> ('m, 'a, 'd) Assembly \<Rightarrow> ('m, 'a, 'd) outcome" where
  "check_cache clk request st =
     (let this = asm_this st;
          cacheKey = ''profile:'' @ userId request
      in if cacheEnabled (options this)
         then (case lru_get cacheKey (cacheGetTime clk) (profileCache this) of
                 (Some cached, pc) \<Rightarrow>
                   (case lg_debug (opt_logger (options this))
                           [Str (''Cache hit for '' @ userId request)] of
                      Some e \<Rightarrow> Inl (e, this\<lparr>profileCache := pc\<rparr>)
                    | None \<Rightarrow>
                        Inr (take_profile request cached
                               (st\<lparr>asm_this := this\<lparr>profileCache := pc\<rparr>,
                                   asm_sources := asm_sources st @ [''cache'']\<rparr>)))
               | (None, pc) \<Rightarrow> Inr (st\<lparr>asm_this := this\<lparr>profileCache := pc\<rparr>\<rparr>))
         else Inr st)"

text \<open>
  Step 2: the backend profile, when the cache gave none.  The inner \<open>catch\<close> logs a
  warning and goes on; it is the warning that can throw.
\<close>

definition fetch_profile ::
  "Clock \<Rightarrow> GetContextRequest \<Rightarrow> ('m, 'a, 'd) Assembly \<Rightarrow> ('m, 'a, 'd) outcome" where
  "fetch_profile clk request st =
     (let this = asm_this st;
          cacheKey = ''profile:'' @ userId request
      in if fc_profile (asm_context st) = None \<and> not_false (includeProfile request)
         then (case getProfile (client this) (userId request) (query request) None of
                 Inr p \<Rightarrow>
                   (let st1 = st\<lparr>asm_sources := asm_sources st @ [''profile'']\<rparr>;
                        st2 = (if cacheEnabled (options this)
                               then st1\<lparr>asm_this := this\<lparr>profileCache :=
                                      lru_set cacheKey p (cacheSetTime clk) (profileCache this)\<rparr>\<rparr>
                               else st1)
                    in Inr (take_profile request p st2))
               | Inl error \<Rightarrow>
                   (case lg_warn (opt_logger (options this))
                           [Str ''Failed to fetch profile:'', Err error] of
                      Some e \<Rightarrow> Inl (e, this)
                    | None \<Rightarrow> Inr st))
         else Inr st)"

text \<open>Step 3: the recent memories, when asked for and a call id is there; same policy.\<close>

definition fetch_recent ::
  "GetContextRequest \<Rightarrow> ('m, 'a, 'd) Assembly \<Rightarrow> ('m, 'a, 'd) outcome" where
  "fetch_recent request st =
     (let this = asm_this st
      in if not_false (includeRecent request) \<and> truthy (callId request)
         then (case searchMemories (client this) ''recent conversation'' (userId request)
                      (Some (searchThreshold (options this))) (Some 3) of
                 Inr memories \<Rightarrow>
                   (let ctx1 = (asm_context st)\<lparr>recentMemories := memories_of memories\<rparr>;
                        ctx2 = ctx1\<lparr>totalTokens := totalTokens ctx1 + estimateMultiple (recentMemories ctx1)\<rparr>
                    in Inr (st\<lparr>asm_context := ctx2,
                               asm_sources := asm_sources st @ [''recent-memories'']\<rparr>))
               | Inl error \<Rightarrow>
                   (case lg_warn (opt_logger (options this))
                           [Str ''Failed to fetch recent memories:'', Err error] of
                      Some e \<Rightarrow> Inl (e, this)
                    | None \<Rightarrow> Inr st))
         else Inr st)"

text \<open>Step 4: the elapsed time and the sources go into the metadata, and a line is logged.\<close>

definition finish ::
  "Runtime \<Rightarrow> Clock \<Rightarrow> GetContextRequest \<Rightarrow> ('m, 'a, 'd) Assembly \<Rightarrow> ('m, 'a, 'd) outcome" where
  "finish rt clk request st =
     (let ctx = asm_context st;
          ctx' = ctx\<lparr>fc_metadata := (fc_metadata ctx)\<lparr>retrievalTime := endTime clk - startTime clk,
                                                    md_sources := asm_sources st\<rparr>\<rparr>
      in case lg_info (opt_logger (options (asm_this st)))
                [Str (''Context retrieved for '' @ userId request @ '' in ''
                      @ numberToString rt (Num (retrievalTime (fc_metadata ctx'))) @ ''ms (''
                      @ join '', '' (asm_sources st) @ '')'')] of
           Some e \<Rightarrow> Inl (e, asm_this st)
         | None \<Rightarrow> Inr (st\<lparr>asm_context := ctx'\<rparr>))"

text \<open>
  \<open>getContext\<close>: the body inside the outer \<open>try\<close>, and the outer \<open>catch\<close>, which logs
  what it caught and throws an \<open>Error\<close> with the prefix \<open>Failed to get context: \<close>.  The
  result is the context or what escapes, and the object with its cache as the call left
  it.
\<close>

definition getContext ::
  "Runtime \<Rightarrow> Clock \<Rightarrow> GetContextRequest \<Rightarrow> ('m, 'a, 'd) VapiMemory
    \<Rightarrow> (thrown + FormattedContext) \<times> ('m, 'a, 'd) VapiMemory" where
  "getContext rt clk request this =
     (let st0 = \<lparr>asm_context =
                   \<lparr>fc_profile = None, recentMemories = [], fc_searchResults = [], totalTokens = 0,
                    fc_metadata = \<lparr>md_userId = userId request, retrievalTime = 0, md_sources = []\<rparr>\<rparr>,
                 asm_sources = [], asm_this = this\<rparr>;
          body = and_then (check_cache clk request st0) (\<lambda>st1.
                 and_then (fetch_profile clk request st1) (\<lambda>st2.
                 and_then (fetch_recent request st2) (\<lambda>st3.
                 finish rt clk request st3)))
      in case body of
           Inr st \<Rightarrow> (Inr (asm_context st), asm_this st)
         | Inl (error, this') \<Rightarrow>
             (case lg_error (opt_logger (options this)) [Str ''Error getting context:'', Err error] of
                Some e \<Rightarrow> (Inl e, this')
              | None \<Rightarrow> (Inl (Error (''Failed to get context: '' @ error_message error)), this')))"

subsection \<open>Loggers\<close>

text \<open>A logger none of whose methods throws, whatever it is handed.\<close>

definition quiet :: "Logger \<Rightarrow> bool" where
  "quiet lg =
     (\<forall>args. lg_info lg args = None \<and> lg_error lg args = None
             \<and> lg_warn lg args = None \<and> lg_debug lg args = None)"

subsection \<open>An instance for the examples\<close>

text \<open>
  A backend whose profile call throws and whose memory search answers with two results,
  one of them without a \<open>memory\<close> field; a logger that only prints, and one whose
  \<open>warn\<close> throws; an assembler over them with an empty cache.
\<close>

definition failing_profile_sdk :: "(unit, unit, unit) Supermemory" where
  "failing_profile_sdk =
     \<lparr>sdk_profile = (\<lambda>_. Inl (Error ''503'')),
      sdk_add = (\<lambda>_. Inr ()),
      sdk_search_memories = (\<lambda>_. Inr [\<lparr>memory = Some ''likes tea'', score = 9 / 10\<rparr>,
                                        \<lparr>memory = None, score = 1 / 2\<rparr>]),
      sdk_search_documents = (\<lambda>_. Inr ())\<rparr>"

definition console :: Logger where
  "console = \<lparr>lg_info = (\<lambda>_. None), lg_error = (\<lambda>_. None), lg_warn = (\<lambda>_. None),
              lg_debug = (\<lambda>_. None)\<rparr>"

definition warn_throws :: Logger where
  "warn_throws = console\<lparr>lg_warn := (\<lambda>_. Some (Error ''log file is gone''))\<rparr>"

text \<open>The constructor hands its logger to the client.\<close>

definition example_memory :: "Logger \<Rightarrow> (unit, unit, unit) VapiMemory" where
  "example_memory lg =
     \<lparr>client = \<lparr>cl_client = failing_profile_sdk, cl_logger = lg\<rparr>,
      options = \<lparr>opt_maxTokens = 2000, searchThreshold = 1 / 2, cacheEnabled = True,
                 cacheTTL = 60000, opt_logger = lg\<rparr>,
      profileCache = new_LRUCache 100\<rparr>"

definition example_clock :: Clock where
  "example_clock = \<lparr>startTime = 1000, cacheGetTime = 1001, cacheSetTime = 1002, endTime = 1005\<rparr>"

definition example_request :: "string option \<Rightarrow> GetContextRequest" where
  "example_request cid =
     \<lparr>userId = ''+15551234'', query = None, callId = cid, includeProfile = None,
      includeRecent = None, includeSearch = None, req_maxTokens = None\<rparr>"

section \<open>Properties of the recency cache\<close>

subsection \<open>The counter and the map agree\<close>

text \<open>Every operation keeps \<open>lru_inv\<close>.\<close>

lemma keys_map_delete: "map fst (map_delete key m) = filter (\<lambda>k. k \<noteq> key) (map fst m)"
  by (induction m) (auto simp: map_delete_def)

lemma map_delete_absent: "\<not> map_has key m \<Longrightarrow> map_delete key m = m"
  by (induction m) (auto simp: map_delete_def map_has_def)

lemma length_map_delete:
  "distinct (map fst m) \<Longrightarrow> map_has key m \<Longrightarrow> int (length (map_delete key m)) = int (length m) - 1"
proof (induction m)
  case Nil
  then show ?case by (simp add: map_has_def)
next
  case (Cons p m)
  show ?case
  proof (cases "fst p = key")
    case True
    with Cons.prems have "\<not> map_has key m" by (auto simp: map_has_def)
    then have "map_delete key m = m" by (rule map_delete_absent)
    with True show ?thesis by (simp add: map_delete_def)
  next
    case False
    with Cons.prems have "map_has key m" "distinct (map fst m)" by (auto simp: map_has_def)
    with Cons.IH have "int (length (map_delete key m)) = int (length m) - 1" by simp
    with False show ?thesis by (simp add: map_delete_def)
  qed
qed

lemma map_has_map_delete: "map_has k (map_delete key m) = (k \<noteq> key \<and> map_has k m)"
  by (auto simp: map_has_def keys_map_delete)

lemma map_set_absent: "\<not> map_has key m \<Longrightarrow> map_set key e m = m @ [(key, e)]"
  by (simp add: map_set_def)

lemma distinct_map_delete: "distinct (map fst m) \<Longrightarrow> distinct (map fst (map_delete key m))"
  by (simp add: keys_map_delete)

lemma map_get_has: "map_get key m = Some e \<Longrightarrow> map_has key m"
  by (auto simp: map_get_def map_has_def dest: map_of_SomeD intro: rev_image_eqI)

lemma lru_inv_new: "lru_inv (new_LRUCache n)"
  by (simp add: lru_inv_def new_LRUCache_def)

lemma lru_inv_get: "lru_inv c \<Longrightarrow> lru_inv (snd (lru_get key now c))"
proof (cases "map_get key (cache c)")
  case None
  assume "lru_inv c"
  with None show ?thesis by (simp add: lru_get_def)
next
  case (Some e)
  assume inv: "lru_inv c"
  from Some have has: "map_has key (cache c)" by (rule map_get_has)
  have nh: "\<not> map_has key (map_delete key (cache c))" by (simp add: map_has_map_delete)
  from inv has have len: "int (length (map_delete key (cache c))) = int (length (cache c)) - 1"
    by (simp add: lru_inv_def length_map_delete)
  from inv have d: "distinct (map fst (map_delete key (cache c)))"
    by (simp add: lru_inv_def distinct_map_delete)
  from nh have "key \<notin> set (map fst (map_delete key (cache c)))" by (simp add: map_has_def)
  with Some inv d len show ?thesis
    by (simp add: lru_get_def Let_def map_set_absent[OF nh] lru_inv_def)
qed

lemma lru_inv_delete: "lru_inv c \<Longrightarrow> lru_inv (snd (lru_delete key c))"
  by (auto simp: lru_delete_def Let_def lru_inv_def distinct_map_delete length_map_delete map_delete_absent)

lemma lru_inv_clear: "lru_inv (lru_clear c)"
  by (simp add: lru_inv_def lru_clear_def)

lemma lru_inv_set: "lru_inv c \<Longrightarrow> lru_inv (lru_set key v now c)"
proof -
  assume inv: "lru_inv c"
  define c1 where "c1 = (if map_has key (cache c)
                then c\<lparr>cache := map_delete key (cache c), currentSize := currentSize c - 1\<rparr>
                else c)"
  define c2 where "c2 = (if currentSize c1 \<ge> maxSize c1
                then (case cache c1 of
                        [] \<Rightarrow> c1
                      | (firstKey, _) # _ \<Rightarrow>
                          c1\<lparr>cache := map_delete firstKey (cache c1),
                             currentSize := currentSize c1 - 1\<rparr>)
                else c1)"
  have i1: "lru_inv c1" using inv
    by (auto simp: c1_def lru_inv_def distinct_map_delete length_map_delete)
  have n1: "\<not> map_has key (cache c1)"
    by (auto simp: c1_def map_has_map_delete)
  have i2: "lru_inv c2"
  proof (cases "cache c1")
    case Nil
    with i1 show ?thesis by (simp add: c2_def)
  next
    case (Cons p m)
    then have h: "map_has (fst p) (cache c1)" by (simp add: map_has_def)
    from i1 have d: "distinct (map fst (cache c1))" by (simp add: lru_inv_def)
    have len: "int (length (map_delete (fst p) (cache c1))) = int (length (cache c1)) - 1"
      using d h by (rule length_map_delete)
    have c2: "c2 = (if currentSize c1 \<ge> maxSize c1
                    then c1\<lparr>cache := map_delete (fst p) (cache c1), currentSize := currentSize c1 - 1\<rparr>
                    else c1)"
      using Cons by (simp add: c2_def split: prod.splits)
    show ?thesis using i1 d len
      by (simp add: c2 lru_inv_def distinct_map_delete)
  qed
  have n2: "\<not> map_has key (cache c2)" using n1
    by (auto simp: c2_def map_has_map_delete split: list.splits prod.splits)
  have "lru_set key v now c = c2\<lparr>cache := map_set key \<lparr>entry_value = v, timestamp = now, hits = 0\<rparr> (cache c2),
            currentSize := currentSize c2 + 1\<rparr>"
    unfolding lru_set_def Let_def c2_def c1_def by (rule refl)
  with i2 n2 show ?thesis
    by (simp add: map_set_absent lru_inv_def map_has_def)
qed

lemma lru_inv_cleanup_fold:
  "lru_inv (fst st) \<Longrightarrow> lru_inv (fst (fold (cleanup_step cutoff) es st))"
  by (induction es arbitrary: st) (auto simp: cleanup_step_def lru_inv_delete)

lemma lru_inv_cleanup: "lru_inv c \<Longrightarrow> lru_inv (snd (lru_cleanup maxAge now c))"
  by (simp add: lru_cleanup_def Let_def lru_inv_cleanup_fold)

lemma lru_inv_exec_op: "lru_inv c \<Longrightarrow> lru_inv (exec_op oper c)"
  by (cases oper) (simp_all add: lru_inv_get lru_inv_set lru_inv_delete lru_inv_clear lru_inv_cleanup)

lemma lru_inv_exec_ops: "lru_inv c \<Longrightarrow> lru_inv (exec_ops ops c)"
  unfolding exec_ops_def by (induction ops arbitrary: c) (simp_all add: lru_inv_exec_op)

text \<open>
  C10.  After any sequence of \<open>get\<close>, \<open>set\<close>, \<open>has\<close>, \<open>delete\<close>, \<open>clear\<close> and
  \<open>cleanup\<close> on a freshly constructed cache, the counter \<open>currentSize\<close> is the number
  of entries the map holds, so \<open>size()\<close> and the \<open>size\<close> of \<open>getStats()\<close> are the true
  count of live entries.
\<close>

theorem currentSize_is_entry_count:
  "currentSize (exec_ops ops (new_LRUCache n))
     = int (length (cache (exec_ops ops (new_LRUCache n))))
   \<and> lru_size (exec_ops ops (new_LRUCache n))
     = int (length (lru_entries (exec_ops ops (new_LRUCache n))))
   \<and> stats_size (getStats now (exec_ops ops (new_LRUCache n)))
     = int (length (lru_entries (exec_ops ops (new_LRUCache n))))"
  using lru_inv_exec_ops[OF lru_inv_new, of ops n]
  by (simp add: lru_inv_def lru_size_def lru_entries_def getStats_def Let_def)

subsection \<open>Eviction order\<close>

lemma map_delete_head:
  "distinct (map fst (p # m)) \<Longrightarrow> map_delete (fst p) (p # m) = m"
proof -
  assume "distinct (map fst (p # m))"
  then have "\<not> map_has (fst p) m" by (simp add: map_has_def)
  then have "map_delete (fst p) m = m" by (rule map_delete_absent)
  then show ?thesis by (simp add: map_delete_def)
qed

lemma lru_set_new_key:
  assumes inv: "lru_inv c" and new: "\<not> map_has key (cache c)"
  shows "cache (lru_set key v now c)
           = (if currentSize c \<ge> maxSize c then tl (cache c) else cache c)
             @ [(key, \<lparr>entry_value = v, timestamp = now, hits = 0\<rparr>)]"
proof (cases "cache c")
  case Nil
  with new show ?thesis by (simp add: lru_set_def Let_def map_set_def map_has_def)
next
  case (Cons p m)
  obtain fk e where p: "p = (fk, e)" by (cases p) auto
  from inv Cons have d: "distinct (map fst (p # m))" by (simp add: lru_inv_def)
  then have "map_delete (fst p) (p # m) = m" by (rule map_delete_head)
  then have del: "map_delete fk ((fk, e) # m) = m" by (simp add: p)
  from new Cons have nm: "\<not> map_has key m" and np: "\<not> map_has key (p # m)"
    by (auto simp: map_has_def)
  show ?thesis
  proof (cases "currentSize c \<ge> maxSize c")
    case True
    with new Cons show ?thesis
      by (simp add: lru_set_def Let_def p del map_set_absent[OF nm])
  next
    case False
    with new Cons show ?thesis
      by (simp add: lru_set_def Let_def map_set_absent[OF np])
  qed
qed

lemma maxSize_lru_set: "maxSize (lru_set key v now c) = maxSize c"
  by (simp add: lru_set_def Let_def split: list.splits prod.splits)

lemma keys_set_all:
  assumes "lru_inv c" "1 \<le> maxSize c" "int (length (cache c)) \<le> maxSize c"
    "distinct (lru_keys c @ map fst kvs)"
  shows "lru_keys (set_all kvs c) = lastn (nat (maxSize c)) (lru_keys c @ map fst kvs)"
  using assms
proof (induction kvs arbitrary: c)
  case Nil
  then show ?case by (simp add: set_all_def lastn_def lru_keys_def)
next
  case (Cons kv kvs)
  obtain key v now where kv: "kv = (key, v, now)" by (cases kv) auto
  let ?c' = "lru_set key v now c"
  from Cons.prems(4) kv have new: "\<not> map_has key (cache c)"
    by (auto simp: lru_keys_def map_has_def)
  have cache': "cache ?c' = (if currentSize c \<ge> maxSize c then tl (cache c) else cache c)
             @ [(key, \<lparr>entry_value = v, timestamp = now, hits = 0\<rparr>)]"
    using Cons.prems(1) new by (rule lru_set_new_key)
  have cs: "currentSize c = int (length (cache c))" using Cons.prems(1) by (simp add: lru_inv_def)
  have keys': "lru_keys ?c' = (if currentSize c \<ge> maxSize c then tl (lru_keys c) else lru_keys c) @ [key]"
    by (simp add: lru_keys_def cache' map_tl)
  have inv': "lru_inv ?c'" using Cons.prems(1) by (rule lru_inv_set)
  have max': "maxSize ?c' = maxSize c" by (rule maxSize_lru_set)
  have len': "int (length (cache ?c')) \<le> maxSize ?c'"
    using Cons.prems(2,3) cs by (auto simp: cache' max')
  have sub: "set (tl (lru_keys c)) \<subseteq> set (lru_keys c)"
    by (cases "lru_keys c") auto
  have dt: "distinct (tl (lru_keys c))" using Cons.prems(4) by (simp add: distinct_tl)
  have dist': "distinct (lru_keys ?c' @ map fst kvs)"
    using Cons.prems(4) kv sub dt by (auto simp: keys')
  have "lru_keys (set_all kvs ?c') = lastn (nat (maxSize ?c')) (lru_keys ?c' @ map fst kvs)"
    using inv' _ len' dist' by (rule Cons.IH) (simp add: max' Cons.prems(2))
  moreover have "set_all (kv # kvs) c = set_all kvs ?c'" by (simp add: set_all_def kv)
  moreover have "lastn (nat (maxSize c)) (lru_keys ?c' @ map fst kvs)
      = lastn (nat (maxSize c)) (lru_keys c @ map fst (kv # kvs))"
  proof (cases "currentSize c \<ge> maxSize c")
    case False
    then show ?thesis by (simp add: keys' kv)
  next
    case True
    with cs Cons.prems(2,3) have l: "length (lru_keys c) = nat (maxSize c)" and ne: "lru_keys c \<noteq> []"
      by (auto simp: lru_keys_def)
    then obtain k0 ks where K: "lru_keys c = k0 # ks" by (cases "lru_keys c") auto
    with l True show ?thesis
      by (simp add: keys' kv lastn_def Suc_diff_le)
  qed
  ultimately show ?case by (simp add: max')
qed


lemma lru_set_existing:
  "map_has key (cache c) \<Longrightarrow>
   lru_set key v now c
     = lru_set key v now (c\<lparr>cache := map_delete key (cache c), currentSize := currentSize c - 1\<rparr>)"
  by (simp add: lru_set_def map_has_map_delete)

lemma length_lru_set_new:
  assumes "lru_bounded c" "\<not> map_has key (cache c)"
  shows "int (length (cache (lru_set key v now c))) \<le> max 1 (maxSize c)"
proof -
  from assms(1) have inv: "lru_inv c"
    and l: "int (length (cache c)) \<le> max 1 (maxSize c)" and cs: "currentSize c = int (length (cache c))"
    by (simp_all add: lru_bounded_def lru_inv_def)
  have "cache (lru_set key v now c)
           = (if currentSize c \<ge> maxSize c then tl (cache c) else cache c)
             @ [(key, \<lparr>entry_value = v, timestamp = now, hits = 0\<rparr>)]"
    using inv assms(2) by (rule lru_set_new_key)
  with l cs show ?thesis by (cases "cache c") auto
qed

lemma lru_bounded_set: "lru_bounded c \<Longrightarrow> lru_bounded (lru_set key v now c)"
proof -
  assume b: "lru_bounded c"
  then have inv: "lru_inv c" by (simp add: lru_bounded_def)
  have "int (length (cache (lru_set key v now c))) \<le> max 1 (maxSize c)"
  proof (cases "map_has key (cache c)")
    case False
    with b show ?thesis by (rule length_lru_set_new)
  next
    case True
    let ?c1 = "c\<lparr>cache := map_delete key (cache c), currentSize := currentSize c - 1\<rparr>"
    from inv True have "int (length (map_delete key (cache c))) = int (length (cache c)) - 1"
      by (simp add: lru_inv_def length_map_delete)
    with b have "lru_bounded ?c1"
      by (simp add: lru_bounded_def lru_inv_def distinct_map_delete)
    moreover have "\<not> map_has key (cache ?c1)" by (simp add: map_has_map_delete)
    ultimately have "int (length (cache (lru_set key v now ?c1))) \<le> max 1 (maxSize ?c1)"
      by (rule length_lru_set_new)
    with True show ?thesis by (simp add: lru_set_existing[symmetric])
  qed
  with b show ?thesis by (simp add: lru_bounded_def lru_inv_set maxSize_lru_set)
qed

lemma lru_get_size: "currentSize (snd (lru_get key now c)) = currentSize c"
  "maxSize (snd (lru_get key now c)) = maxSize c"
  by (simp_all add: lru_get_def Let_def split: option.splits)

lemma lru_bounded_get: "lru_bounded c \<Longrightarrow> lru_bounded (snd (lru_get key now c))"
proof -
  assume b: "lru_bounded c"
  then have "lru_inv (snd (lru_get key now c))" by (simp add: lru_bounded_def lru_inv_get)
  with b show ?thesis
    using lru_get_size[of key now c] by (simp add: lru_bounded_def lru_inv_def)
qed

lemma length_map_delete_le: "length (map_delete key m) \<le> length m"
  by (simp add: map_delete_def)

lemma lru_bounded_delete: "lru_bounded c \<Longrightarrow> lru_bounded (snd (lru_delete key c))"
proof -
  assume b: "lru_bounded c"
  then have "lru_inv (snd (lru_delete key c))" by (simp add: lru_bounded_def lru_inv_delete)
  moreover have "maxSize (snd (lru_delete key c)) = maxSize c"
    by (simp add: lru_delete_def Let_def)
  moreover have "cache (snd (lru_delete key c)) = map_delete key (cache c)"
    by (simp add: lru_delete_def Let_def)
  ultimately show ?thesis
    using b length_map_delete_le[of key "cache c"] by (simp add: lru_bounded_def)
qed

lemma lru_bounded_clear: "lru_bounded c \<Longrightarrow> lru_bounded (lru_clear c)"
  by (simp add: lru_bounded_def lru_inv_def lru_clear_def)

lemma lru_bounded_cleanup_fold:
  "lru_bounded (fst st) \<Longrightarrow> lru_bounded (fst (fold (cleanup_step cutoff) es st))"
  by (induction es arbitrary: st) (auto simp: cleanup_step_def lru_bounded_delete)

lemma lru_bounded_cleanup: "lru_bounded c \<Longrightarrow> lru_bounded (snd (lru_cleanup maxAge now c))"
  by (simp add: lru_cleanup_def Let_def lru_bounded_cleanup_fold)

lemma lru_bounded_exec_op: "lru_bounded c \<Longrightarrow> lru_bounded (exec_op oper c)"
  by (cases oper)
    (simp_all add: lru_bounded_get lru_bounded_set lru_bounded_delete lru_bounded_clear
       lru_bounded_cleanup)

lemma lru_bounded_exec_ops: "lru_bounded c \<Longrightarrow> lru_bounded (exec_ops ops c)"
  unfolding exec_ops_def by (induction ops arbitrary: c) (simp_all add: lru_bounded_exec_op)

lemma lru_bounded_new: "lru_bounded (new_LRUCache n)"
  by (simp add: lru_bounded_def lru_inv_def new_LRUCache_def)

lemma maxSize_exec_op: "maxSize (exec_op oper c) = maxSize c"
proof (cases oper)
  case (Cleanup maxAge now)
  have "maxSize (fst (fold (cleanup_step cutoff) es st)) = maxSize (fst st)" for cutoff es
    and st :: "('a, 'b) LRUCache \<times> int"
    by (induction es arbitrary: st) (auto simp: cleanup_step_def lru_delete_def Let_def)
  with Cleanup show ?thesis by (simp add: lru_cleanup_def Let_def)
qed (simp_all add: lru_get_size maxSize_lru_set lru_delete_def Let_def lru_clear_def)

lemma maxSize_exec_ops: "maxSize (exec_ops ops c) = maxSize c"
  unfolding exec_ops_def by (induction ops arbitrary: c) (simp_all add: maxSize_exec_op)

lemma keys_fresh_set_all:
  assumes "1 \<le> n" "distinct (map fst kvs)"
  shows "lru_keys (set_all kvs (new_LRUCache n)) = lastn (nat n) (map fst kvs)"
proof -
  have "lru_keys (set_all kvs (new_LRUCache n))
      = lastn (nat (maxSize (new_LRUCache n :: ('a, 'b) LRUCache)))
          (lru_keys (new_LRUCache n :: ('a, 'b) LRUCache) @ map fst kvs)"
    using assms by (intro keys_set_all) (simp_all add: lru_inv_def new_LRUCache_def lru_keys_def)
  then show ?thesis by (simp add: new_LRUCache_def lru_keys_def)
qed

lemma lru_has_keys: "lru_has key c = (key \<in> set (lru_keys c))"
  by (simp add: lru_has_def map_has_def lru_keys_def)


lemma map_has_get: "map_has key m \<Longrightarrow> \<exists>e. map_get key m = Some e"
  by (induction m) (auto simp: map_has_def map_get_def)

lemma lru_keys_get:
  assumes "map_has key (cache c)"
  shows "lru_keys (snd (lru_get key now c)) = filter (\<lambda>k. k \<noteq> key) (lru_keys c) @ [key]"
proof -
  from assms obtain e where e: "map_get key (cache c) = Some e" using map_has_get by fast
  have nh: "\<not> map_has key (map_delete key (cache c))" by (simp add: map_has_map_delete)
  show ?thesis
    by (simp add: lru_get_def e Let_def map_set_absent[OF nh] lru_keys_def keys_map_delete)
qed

lemma filter_hd_distinct: "distinct (x # xs) \<Longrightarrow> filter (\<lambda>k. k \<noteq> x) (x # xs) = xs"
  by (auto simp: filter_id_conv)



text \<open>
  C3, as the code has it.  Fill a cache of capacity \<open>n\<close> with \<open>n\<close> distinct keys (no
  \<open>get\<close> in between), \<open>get\<close> the oldest key \<open>k\<close>, then set at least one and fewer
  than \<open>n\<close> new distinct keys: \<open>k\<close> is still present, and the key that was
  second-oldest before the \<open>get\<close> is gone.
\<close>

theorem promoted_key_survives:
  assumes d: "distinct (map fst kvs @ map fst news)"
    and l: "int (length kvs) = n" and l1: "1 \<le> length news" and l2: "int (length news) < n"
  shows "lru_has (fst (hd kvs))
           (set_all news (snd (lru_get (fst (hd kvs)) now (set_all kvs (new_LRUCache n)))))
       \<and> \<not> lru_has (fst (kvs ! 1))
           (set_all news (snd (lru_get (fst (hd kvs)) now (set_all kvs (new_LRUCache n)))))"
proof -
  have n: "2 \<le> n" using l1 l2 by linarith
  from l n obtain kv0 kv1 rest where kvs: "kvs = kv0 # kv1 # rest"
    by (cases kvs; cases "tl kvs") auto
  let ?filled = "set_all kvs (new_LRUCache n)"
  let ?touched = "snd (lru_get (fst kv0) now ?filled)"
  have n1: "1 \<le> n" using n by simp
  have fb: "lru_bounded ?filled"
    unfolding set_all_def
    by (induction kvs rule: rev_induct) (simp_all add: lru_bounded_new lru_bounded_set)
  have fm: "maxSize ?filled = n"
    unfolding set_all_def
    by (induction kvs rule: rev_induct) (simp_all add: new_LRUCache_def maxSize_lru_set)
  have "lru_keys ?filled = lastn (nat n) (map fst kvs)"
    using n1 d by (intro keys_fresh_set_all) simp_all
  then have fk: "lru_keys ?filled = map fst kvs" using l by (simp add: lastn_def)
  then have "map_has (fst kv0) (cache ?filled)" unfolding map_has_def lru_keys_def by (simp add: kvs)
  then have "lru_keys ?touched = filter (\<lambda>k. k \<noteq> fst kv0) (lru_keys ?filled) @ [fst kv0]"
    by (rule lru_keys_get)
  also have "\<dots> = map fst (kv1 # rest) @ [fst kv0]"
  proof -
    have "distinct (fst kv0 # map fst (kv1 # rest))" using d by (simp add: kvs)
    then have "filter (\<lambda>k. k \<noteq> fst kv0) (fst kv0 # map fst (kv1 # rest)) = map fst (kv1 # rest)"
      by (rule filter_hd_distinct)
    moreover have "lru_keys ?filled = fst kv0 # map fst (kv1 # rest)" using fk by (simp add: kvs)
    ultimately show ?thesis by (simp only:)
  qed
  finally have tk: "lru_keys ?touched = map fst (kv1 # rest) @ [fst kv0]" .
  have tb: "lru_bounded ?touched" using fb by (rule lru_bounded_get)
  have tm: "maxSize ?touched = n" by (simp add: lru_get_size fm)
  have "lru_keys (set_all news ?touched)
      = lastn (nat (maxSize ?touched)) (lru_keys ?touched @ map fst news)"
  proof (rule keys_set_all)
    show "lru_inv ?touched" "1 \<le> maxSize ?touched"
      "int (length (cache ?touched)) \<le> maxSize ?touched"
      using tb n1 by (simp_all add: lru_bounded_def tm)
    have "distinct ((map fst (kv1 # rest) @ [fst kv0]) @ map fst news)"
      using d by (auto simp: kvs)
    then show "distinct (lru_keys ?touched @ map fst news)" by (simp only: tk)
  qed
  also have "\<dots> = drop (length news) (fst kv1 # map fst rest @ [fst kv0] @ map fst news)"
  proof -
    from l have "nat n = Suc (Suc (length rest))" by (simp add: kvs)
    then show ?thesis unfolding tm tk by (simp add: lastn_def)
  qed
  also have "\<dots> = drop (length news - 1) (map fst rest @ [fst kv0] @ map fst news)"
    using l1 by (cases "length news") simp_all
  also have "\<dots> = drop (length news - 1) (map fst rest) @ [fst kv0] @ map fst news"
    using l l2 by (simp add: kvs)
  finally have fin: "lru_keys (set_all news ?touched)
      = drop (length news - 1) (map fst rest) @ [fst kv0] @ map fst news" .
  have "fst kv1 \<notin> set (drop (length news - 1) (map fst rest))"
    using d by (auto simp: kvs dest: in_set_dropD)
  moreover have "distinct (map fst (kv0 # kv1 # rest) @ map fst news)" using d by (simp only: kvs)
  ultimately have "lru_has (fst kv0) (set_all news ?touched)
      \<and> \<not> lru_has (fst kv1) (set_all news ?touched)"
    unfolding lru_has_keys fin by auto
  then show ?thesis by (simp add: kvs)
qed


text \<open>The theorem at capacity 3 with two new keys.\<close>

theorem promoted_key_survives_witness:
  "lru_has ''key1''
     (set_all [(''key4'', 4, 4), (''key5'', 5, 5)]
        (snd (lru_get ''key1'' 3
           (set_all [(''key1'', 1 :: nat, 0), (''key2'', 2, 1), (''key3'', 3, 2)] (new_LRUCache 3)))))
   \<and> \<not> lru_has ''key2''
     (set_all [(''key4'', 4, 4), (''key5'', 5, 5)]
        (snd (lru_get ''key1'' 3
           (set_all [(''key1'', 1 :: nat, 0), (''key2'', 2, 1), (''key3'', 3, 2)] (new_LRUCache 3)))))"
  using promoted_key_survives
    [of "[(''key1'', 1 :: nat, 0), (''key2'', 2, 1), (''key3'', 3, 2)]"
        "[(''key4'', 4, 4), (''key5'', 5, 5)]" 3 3]
  by simp

text \<open>
  With as many new keys as the capacity, every entry that was there before is evicted,
  the promoted key too: at capacity 3, after \<open>get(key1)\<close> and three new keys,
  \<open>key1\<close> is absent.
\<close>

theorem promoted_key_evicted_after_capacity_sets:
  "\<not> lru_has ''key1''
     (set_all [(''key4'', 4, 4), (''key5'', 5, 5), (''key6'', 6, 6)]
        (snd (lru_get ''key1'' 3
           (set_all [(''key1'', 1 :: nat, 0), (''key2'', 2, 1), (''key3'', 3, 2)] (new_LRUCache 3)))))"
  by code_simp

subsection \<open>The hit rate\<close>

lemma fold_hits_sum:
  "fold (\<lambda>p sum. sum + f p) es a = a + sum_list (map f es)"
  for f :: "'a \<Rightarrow> int"
  by (induction es arbitrary: a) simp_all

lemma list_all_map_delete: "list_all P m \<Longrightarrow> list_all P (map_delete key m)"
  by (simp add: map_delete_def list_all_iff)

lemma list_all_map_set: "list_all P m \<Longrightarrow> P (key, e) \<Longrightarrow> list_all P (map_set key e m)"
  by (auto simp: map_set_def list_all_iff)

lemma map_get_in: "map_get key m = Some e \<Longrightarrow> (key, e) \<in> set m"
  by (simp add: map_get_def map_of_SomeD)

lemma hits_nonneg_get: "hits_nonneg c \<Longrightarrow> hits_nonneg (snd (lru_get key now c))"
proof (cases "map_get key (cache c)")
  case None
  assume "hits_nonneg c"
  with None show ?thesis by (simp add: lru_get_def)
next
  case (Some e)
  assume h: "hits_nonneg c"
  from Some have "(key, e) \<in> set (cache c)" by (rule map_get_in)
  with h have "0 \<le> hits e" by (auto simp: hits_nonneg_def list_all_iff)
  with h Some show ?thesis
    by (simp add: lru_get_def Let_def hits_nonneg_def list_all_map_set list_all_map_delete)
qed

lemma list_all_lru_set:
  assumes "list_all P (cache c)" "P (key, \<lparr>entry_value = v, timestamp = now, hits = 0\<rparr>)"
  shows "list_all P (cache (lru_set key v now c))"
proof -
  define c1 where "c1 = (if map_has key (cache c)
                then c\<lparr>cache := map_delete key (cache c), currentSize := currentSize c - 1\<rparr>
                else c)"
  define c2 where "c2 = (if currentSize c1 \<ge> maxSize c1
                then (case cache c1 of
                        [] \<Rightarrow> c1
                      | (firstKey, _) # _ \<Rightarrow>
                          c1\<lparr>cache := map_delete firstKey (cache c1),
                             currentSize := currentSize c1 - 1\<rparr>)
                else c1)"
  have 1: "list_all P (cache c1)" using assms(1) by (simp add: c1_def list_all_map_delete)
  have 2: "list_all P (cache c2)"
  proof (cases "cache c1")
    case Nil
    with 1 show ?thesis by (simp add: c2_def)
  next
    case (Cons p m)
    obtain fk e where p: "p = (fk, e)" by (cases p) auto
    have "list_all P (map_delete fk (cache c1))" using 1 by (rule list_all_map_delete)
    with 1 Cons p show ?thesis by (simp add: c2_def)
  qed
  have "lru_set key v now c = c2\<lparr>cache := map_set key \<lparr>entry_value = v, timestamp = now, hits = 0\<rparr> (cache c2),
            currentSize := currentSize c2 + 1\<rparr>"
    unfolding lru_set_def Let_def c2_def c1_def by (rule refl)
  with 2 assms(2) show ?thesis by (simp add: list_all_map_set)
qed

lemma hits_nonneg_set: "hits_nonneg c \<Longrightarrow> hits_nonneg (lru_set key v now c)"
  unfolding hits_nonneg_def by (rule list_all_lru_set) simp_all

lemma hits_nonneg_delete: "hits_nonneg c \<Longrightarrow> hits_nonneg (snd (lru_delete key c))"
  by (simp add: lru_delete_def Let_def hits_nonneg_def list_all_map_delete)

lemma hits_nonneg_cleanup_fold:
  "hits_nonneg (fst st) \<Longrightarrow> hits_nonneg (fst (fold (cleanup_step cutoff) es st))"
  by (induction es arbitrary: st) (auto simp: cleanup_step_def hits_nonneg_delete)

lemma hits_nonneg_exec_op: "hits_nonneg c \<Longrightarrow> hits_nonneg (exec_op oper c)"
  by (cases oper)
    (simp_all add: hits_nonneg_get hits_nonneg_set hits_nonneg_delete hits_nonneg_cleanup_fold
       lru_cleanup_def Let_def, simp add: hits_nonneg_def lru_clear_def)

lemma hits_nonneg_exec_ops: "hits_nonneg c \<Longrightarrow> hits_nonneg (exec_ops ops c)"
  unfolding exec_ops_def by (induction ops arbitrary: c) (simp_all add: hits_nonneg_exec_op)

lemma sum_hits_nonneg: "hits_nonneg c \<Longrightarrow> 0 \<le> sum_list (map (\<lambda>p. hits (snd p)) (cache c))"
  by (auto simp: hits_nonneg_def list_all_iff intro!: sum_list_nonneg)

text \<open>
  C8, as the code has it.  In every cache state \<open>getStats\<close> reports the hit rate
  \<open>totalHits / (totalHits + (maxSize - live))\<close> when that denominator is positive, and 0
  when it is zero or negative; \<open>totalHits\<close> is the sum of the hit counters of the
  entries.  For a cache constructed with \<open>maxSize \<ge> 0\<close> this is the formula of the
  specification in every state its operations reach.
\<close>

theorem hitRate_formula:
  "hitRate (getStats now c)
     = (let totalHits = sum_list (map (\<lambda>p. hits (snd p)) (cache c));
            denominator = totalHits + (maxSize c - int (length (cache c)))
        in if denominator > 0 then of_int totalHits / of_int denominator else 0)
   \<and> (0 \<le> n \<longrightarrow>
        hitRate (getStats now (exec_ops ops (new_LRUCache n)))
          = spec_hitRate (exec_ops ops (new_LRUCache n)))"
proof -
  have A: "hitRate (getStats t c')
     = (let totalHits = sum_list (map (\<lambda>p. hits (snd p)) (cache c'));
            denominator = totalHits + (maxSize c' - int (length (cache c')))
        in if denominator > 0 then of_int totalHits / of_int denominator else 0)"
    for c' :: "('x, 'y) LRUCache" and t
    by (simp add: getStats_def Let_def lru_entries_def fold_hits_sum)
  have B: "hitRate (getStats now (exec_ops ops (new_LRUCache n)))
          = spec_hitRate (exec_ops ops (new_LRUCache n))" if n: "0 \<le> n"
  proof -
    let ?st = "exec_ops ops (new_LRUCache n)"
    let ?h = "sum_list (map (\<lambda>p. hits (snd p)) (cache ?st))"
    have "lru_bounded ?st" by (intro lru_bounded_exec_ops lru_bounded_new)
    then have len: "int (length (cache ?st)) \<le> max 1 n"
      by (simp add: lru_bounded_def maxSize_exec_ops new_LRUCache_def)
    have "hits_nonneg ?st"
      by (intro hits_nonneg_exec_ops) (simp add: hits_nonneg_def new_LRUCache_def)
    then have h0: "0 \<le> ?h" by (rule sum_hits_nonneg)
    have m: "maxSize ?st = n" by (simp add: maxSize_exec_ops new_LRUCache_def)
    let ?d = "?h + (n - int (length (cache ?st)))"
    have "?d < 0 \<Longrightarrow> ?h = 0" using len n h0 by linarith
    then have "(if ?d > 0 then of_int ?h / of_int ?d else (0::rat))
        = (if ?d = 0 then 0 else of_int ?h / of_int ?d)" by auto
    then show ?thesis unfolding A spec_hitRate_def Let_def m .
  qed
  from A[of now c] B show ?thesis by blast
qed

text \<open>The theorem on a cache of capacity 3 with two keys and two hits.\<close>

theorem hitRate_formula_witness:
  "hitRate (getStats 3 (exec_ops [Set ''key1'' (1 :: nat) 0, Set ''key2'' 2 0, Get ''key1'' 1, Get ''key1'' 2, Get ''key3'' 2] (new_LRUCache 3)))
     = 2 / 3"
proof -
  have "spec_hitRate (exec_ops [Set ''key1'' (1 :: nat) 0, Set ''key2'' 2 0, Get ''key1'' 1, Get ''key1'' 2, Get ''key3'' 2] (new_LRUCache 3)) = 2 / 3"
    by code_simp
  then show ?thesis
    using hitRate_formula[of 3 "exec_ops [Set ''key1'' (1 :: nat) 0, Set ''key2'' 2 0, Get ''key1'' 1, Get ''key1'' 2, Get ''key3'' 2] (new_LRUCache 3)" 3 "[Set ''key1'' (1 :: nat) 0, Set ''key2'' 2 0, Get ''key1'' 1, Get ''key1'' 2, Get ''key3'' 2]"]
    by simp
qed

text \<open>
  With a negative \<open>maxSize\<close> the denominator can be negative while there are hits: after
  \<open>set(k)\<close> and \<open>get(k)\<close> on \<open>new LRUCache(-1)\<close> it is \<open>1 + (-1 - 1) = -1\<close>; the code
  reports 0 where the quotient is \<open>-1\<close>.
\<close>

theorem hitRate_negative_denominator:
  "hitRate (getStats 2 (exec_ops [Set ''k'' (1 :: nat) 0, Get ''k'' 1] (new_LRUCache (- 1)))) = 0
   \<and> spec_hitRate (exec_ops [Set ''k'' (1 :: nat) 0, Get ''k'' 1] (new_LRUCache (- 1))) = - 1"
  by code_simp

section \<open>Properties of the formatter\<close>

subsection \<open>The order of the output\<close>

lemma compareSections_le: "(compareSections rt a b \<le> 0) = collates_before rt a b"
  by (auto simp: compareSections_def collates_before_def)

lemma collates_before_total:
  "consistent_comparison (localeCompare rt) \<Longrightarrow> collates_before rt a b \<or> collates_before rt b a"
  unfolding consistent_comparison_def collates_before_def
  by (metis linorder_not_le not_less_iff_gr_or_eq order_less_imp_le)

lemma collates_before_trans:
  "consistent_comparison (localeCompare rt) \<Longrightarrow> collates_before rt a b
     \<Longrightarrow> collates_before rt b c \<Longrightarrow> collates_before rt a c"
  unfolding consistent_comparison_def collates_before_def
  by (smt (verit, best))

lemma set_insert_sorted: "set (insert_sorted cmp x xs) = insert x (set xs)"
  by (induction xs) auto

lemma set_array_sort: "set (array_sort cmp xs) = set xs"
  unfolding array_sort_def by (induction xs) (simp_all add: set_insert_sorted)

lemma sorted_insert_sorted:
  assumes c: "consistent_comparison (localeCompare rt)"
  shows "sorted_wrt (collates_before rt) xs
     \<Longrightarrow> sorted_wrt (collates_before rt) (insert_sorted (compareSections rt) x xs)"
proof (induction xs)
  case Nil
  then show ?case by simp
next
  case (Cons y ys)
  show ?case
  proof (cases "collates_before rt x y")
    case True
    with Cons.prems show ?thesis
      by (auto simp: compareSections_le intro: collates_before_trans[OF c])
  next
    case False
    then have "collates_before rt y x" using collates_before_total[OF c] by blast
    with False Cons show ?thesis
      by (auto simp: compareSections_le set_insert_sorted)
  qed
qed

lemma sorted_array_sort:
  "consistent_comparison (localeCompare rt)
     \<Longrightarrow> sorted_wrt (collates_before rt) (array_sort (compareSections rt) xs)"
  unfolding array_sort_def by (induction xs) (simp_all add: sorted_insert_sorted)

lemma sorted_dedup_fold:
  "sorted_wrt R (snd st @ xs) \<Longrightarrow> sorted_wrt R (snd (fold dedup_step xs st))"
proof (induction xs arbitrary: st)
  case Nil
  then show ?case by simp
next
  case (Cons x xs)
  have "sorted_wrt R (snd (dedup_step x st) @ xs)"
    using Cons.prems by (auto simp: dedup_step_def Let_def sorted_wrt_append)
  then show ?case using Cons.IH by simp
qed

lemma sorted_deduplicate: "sorted_wrt R xs \<Longrightarrow> sorted_wrt R (deduplicate xs)"
  unfolding deduplicate_def by (rule sorted_dedup_fold) simp

lemma sorted_select_fold:
  "sorted_wrt R (sel_included st @ xs)
     \<Longrightarrow> sorted_wrt R (sel_included (fold (select_step maxT) xs st))"
proof (induction xs arbitrary: st)
  case Nil
  then show ?case by simp
next
  case (Cons x xs)
  have "sorted_wrt R (sel_included (select_step maxT x st) @ xs)"
    using Cons.prems by (auto simp: select_step_def sorted_wrt_append)
  then show ?case using Cons.IH by simp
qed

lemma sections_format:
  "sections (format rt secs opts)
     = sel_included (select_sections (maxTokens opts)
         (deduplicate (array_sort (compareSections rt) secs)))"
  "usedTokens (format rt secs opts)
     = sel_usedTokens (select_sections (maxTokens opts)
         (deduplicate (array_sort (compareSections rt) secs)))"
  by (simp_all add: format_def Let_def)

text \<open>
  C7, as the code has it.  The returned \<open>sections\<close> are in descending order of
  \<open>priority\<close>, and among sections of equal priority in descending order of \<open>id\<close> under
  the collation of the runtime, \<open>localeCompare\<close>: of two neighbours of equal priority,
  the id of the first does not collate before the id of the second.  This holds for
  every runtime whose \<open>localeCompare\<close> is a consistent comparison, every input list and
  every configuration: the stable sort puts the list in that order, and deduplication
  and the budget only drop sections.
\<close>

theorem sections_sorted:
  assumes "consistent_comparison (localeCompare rt)"
  shows "sorted_wrt (collates_before rt) (sections (format rt secs opts))"
  unfolding sections_format select_sections_def
  by (rule sorted_select_fold) (simp add: sorted_deduplicate sorted_array_sort assms)

text \<open>
  The theorem on the runtime of the examples, for three sections, two of equal priority
  with the ids \<open>b\<close> and \<open>B\<close>.
\<close>

lemma alphabetic_compare_consistent: "consistent_comparison alphabetic_compare"
  unfolding consistent_comparison_def alphabetic_compare_def
  by (auto split: if_splits)

theorem sections_sorted_witness:
  "sorted_wrt (collates_before example_runtime)
     (sections (format example_runtime
        [\<lparr>id_str = ''b'', content = ''Low priority'', priority = 1, tokens = 10, source = ''low''\<rparr>,
         \<lparr>id_str = ''a'', content = ''High priority'', priority = 3, tokens = 10, source = ''high''\<rparr>,
         \<lparr>id_str = ''B'', content = ''Medium priority'', priority = 1, tokens = 10, source = ''medium''\<rparr>]
        \<lparr>maxTokens = 100, includeTokens = False, includeMetadata = False, separator = None\<rparr>))
   \<and> map id_str (sections (format example_runtime
        [\<lparr>id_str = ''b'', content = ''Low priority'', priority = 1, tokens = 10, source = ''low''\<rparr>,
         \<lparr>id_str = ''a'', content = ''High priority'', priority = 3, tokens = 10, source = ''high''\<rparr>,
         \<lparr>id_str = ''B'', content = ''Medium priority'', priority = 1, tokens = 10, source = ''medium''\<rparr>]
        \<lparr>maxTokens = 100, includeTokens = False, includeMetadata = False, separator = None\<rparr>))
     = [''a'', ''B'', ''b'']"
proof -
  have c: "consistent_comparison (localeCompare example_runtime)"
    by (simp add: example_runtime_def alphabetic_compare_consistent)
  have m: "map id_str (sections (format example_runtime
        [\<lparr>id_str = ''b'', content = ''Low priority'', priority = 1, tokens = 10, source = ''low''\<rparr>,
         \<lparr>id_str = ''a'', content = ''High priority'', priority = 3, tokens = 10, source = ''high''\<rparr>,
         \<lparr>id_str = ''B'', content = ''Medium priority'', priority = 1, tokens = 10, source = ''medium''\<rparr>]
        \<lparr>maxTokens = 100, includeTokens = False, includeMetadata = False, separator = None\<rparr>))
     = [''a'', ''B'', ''b'']"
    by code_simp
  show ?thesis using sections_sorted[OF c] m by blast
qed

text \<open>
  The order among equal priorities is not the lexicographic order of the code units.
  With the ids \<open>a\<close> and \<open>B\<close> and equal priorities, \<open>a\<close> collates before \<open>B\<close>, so
  \<open>B\<close> is placed first; in lexicographic order \<open>B\<close> is the smaller and the claim would
  place \<open>a\<close> first.
\<close>

theorem sections_not_lexicographic:
  "map id_str (sections (format example_runtime
        [\<lparr>id_str = ''a'', content = ''First'', priority = 1, tokens = 1, source = ''s''\<rparr>,
         \<lparr>id_str = ''B'', content = ''Second'', priority = 1, tokens = 1, source = ''s''\<rparr>]
        \<lparr>maxTokens = 10, includeTokens = False, includeMetadata = False, separator = None\<rparr>))
     = [''B'', ''a'']
   \<and> ''B'' < ''a''
   \<and> \<not> sorted_wrt goes_before (sections (format example_runtime
        [\<lparr>id_str = ''a'', content = ''First'', priority = 1, tokens = 1, source = ''s''\<rparr>,
         \<lparr>id_str = ''B'', content = ''Second'', priority = 1, tokens = 1, source = ''s''\<rparr>]
        \<lparr>maxTokens = 10, includeTokens = False, includeMetadata = False, separator = None\<rparr>))"
  by code_simp

subsection \<open>The budget\<close>

lemma bitlen_pos: "0 < n \<Longrightarrow> bitlen n = Suc (bitlen (n div 2))"
  by (subst bitlen.simps) simp

lemma bitlen_nonpos: "n \<le> 0 \<Longrightarrow> bitlen n = 0"
  by (subst bitlen.simps) simp

lemma bitlen_bounds: "0 < n \<Longrightarrow> 2 ^ (bitlen n - 1) \<le> n \<and> n < 2 ^ bitlen n"
proof (induction n rule: bitlen.induct)
  case (1 n)
  have bl: "bitlen n = Suc (bitlen (n div 2))" using 1(2) by (rule bitlen_pos)
  show ?case
  proof (cases "n div 2 \<le> 0")
    case True
    with 1(2) have "n = 1" by linarith
    then show ?thesis using bl by (simp add: bitlen_nonpos)
  next
    case False
    then have pos: "0 < n div 2" by simp
    have ih: "2 ^ (bitlen (n div 2) - 1) \<le> n div 2 \<and> n div 2 < 2 ^ bitlen (n div 2)"
      using 1(1) 1(2) pos by simp
    obtain k where k: "bitlen (n div 2) = Suc k" using bitlen_pos[OF pos] by blast
    have "2 * 2 ^ k \<le> n" using ih k by simp linarith
    moreover have "n < 2 * 2 ^ Suc k" using ih k by simp linarith
    ultimately show ?thesis using bl k by simp
  qed
qed

lemma round_to_double_exact: "\<bar>x\<bar> < 2 ^ 53 \<Longrightarrow> round_to_double x = x"
  by (simp add: round_to_double_def)

lemma round_to_double_large:
  assumes "2 ^ 53 \<le> x"
  shows "2 ^ 53 \<le> round_to_double x"
proof -
  have xpos: "0 < x" using assms by (smt (verit) zero_less_power)
  define e where "e = bitlen x - 53"
  have b: "2 ^ (bitlen x - 1) \<le> x \<and> x < 2 ^ bitlen x" using bitlen_bounds[OF xpos] .
  have lt: "(2::int) ^ 53 < 2 ^ bitlen x" using b assms by linarith
  have gt: "53 < bitlen x" by (rule power_less_imp_less_exp[OF _ lt]) simp
  then have eq: "bitlen x - 1 = 52 + e" and e1: "1 \<le> e" by (simp_all add: e_def)
  have "(2::int) ^ 52 * 2 ^ e \<le> x" using b eq by (simp add: power_add)
  then have m: "(2::int) ^ 52 \<le> x div 2 ^ e"
    by (metis div_mult_self_is_m zdiv_mono1 zero_less_numeral zero_less_power nonzero_mult_div_cancel_right power_not_zero zero_neq_numeral)
  define m' where "m' = (if 2 * (x mod 2 ^ e) > 2 ^ e \<or> (2 * (x mod 2 ^ e) = 2 ^ e \<and> odd (x div 2 ^ e))
                         then x div 2 ^ e + 1 else x div 2 ^ e)"
  have m'ge: "(2::int) ^ 52 \<le> m'" using m by (simp add: m'_def)
  have "(2::int) ^ 1 \<le> 2 ^ e" using e1 by (intro power_increasing) simp_all
  then have q2: "(2::int) \<le> 2 ^ e" by simp
  have "(2::int) ^ 52 * 2 \<le> m' * 2 ^ e"
    using m'ge q2 by (intro mult_mono) simp_all
  then have big: "(2::int) ^ 53 \<le> m' * 2 ^ e" by simp
  have inf: "(2::int) ^ 53 \<le> Infinity" by (simp add: Infinity_def)
  have "round_to_double x = min (m' * 2 ^ e) Infinity"
    using assms xpos by (simp add: round_to_double_def Let_def e_def m'_def)
  then show ?thesis using big inf by simp
qed

lemma js_add_budget:
  assumes "0 \<le> u" "u \<le> m" "m < 2 ^ 53" "0 \<le> t"
  shows "js_gt (js_add (Num u) t) m = (u + t > m)"
    and "u + t \<le> m \<Longrightarrow> js_add (Num u) t = Num (u + t)"
proof -
  have uinf: "\<not> \<bar>u\<bar> \<ge> Infinity" using assms by (simp add: Infinity_def)
  show "js_gt (js_add (Num u) t) m = (u + t > m)"
  proof (cases "\<bar>t\<bar> \<ge> Infinity")
    case True
    then have "t > m" using assms by (simp add: Infinity_def)
    then show ?thesis using True uinf assms by (simp add: js_add_def js_gt_def)
  next
    case False
    show ?thesis
    proof (cases "u + t < 2 ^ 53")
      case True
      then have "round_to_double (u + t) = u + t"
        using assms by (intro round_to_double_exact) simp
      then show ?thesis using False uinf by (simp add: js_add_def js_gt_def)
    next
      case False2: False
      then have "2 ^ 53 \<le> round_to_double (u + t)"
        by (intro round_to_double_large) simp
      then show ?thesis using False uinf False2 assms by (simp add: js_add_def js_gt_def)
    qed
  qed
  show "js_add (Num u) t = Num (u + t)" if "u + t \<le> m"
  proof -
    have "\<bar>u + t\<bar> < 2 ^ 53" using that assms by simp
    then have r: "round_to_double (u + t) = u + t" by (rule round_to_double_exact)
    have "\<not> \<bar>t\<bar> \<ge> Infinity" using that assms by (simp add: Infinity_def)
    then show ?thesis using uinf r by (simp add: js_add_def)
  qed
qed

lemma select_fold_exact:
  assumes "0 \<le> u" "u \<le> maxT" "maxT < 2 ^ 53" "list_all (\<lambda>s. 0 \<le> tokens s) xs"
    "sel_usedTokens st = Num u"
  shows "sel_included (fold (select_step maxT) xs st) = sel_included st @ greedy_fit maxT u xs
       \<and> sel_usedTokens (fold (select_step maxT) xs st)
           = Num (u + sum_list (map tokens (greedy_fit maxT u xs)))
       \<and> u + sum_list (map tokens (greedy_fit maxT u xs)) \<le> maxT"
  using assms
proof (induction xs arbitrary: st u)
  case Nil
  then show ?case by simp
next
  case (Cons x xs)
  have t: "0 \<le> tokens x" and rest: "list_all (\<lambda>s. 0 \<le> tokens s) xs"
    using Cons.prems(4) by simp_all
  note b = js_add_budget[OF Cons.prems(1) Cons.prems(2) Cons.prems(3) t]
  show ?case
  proof (cases "u + tokens x \<le> maxT")
    case True
    have step: "select_step maxT x st
        = st\<lparr>sel_usedTokens := Num (u + tokens x), sel_included := sel_included st @ [x]\<rparr>"
      using True b by (simp add: select_step_def Cons.prems(5))
    have "0 \<le> u + tokens x" using Cons.prems(1) t by simp
    from Cons.IH[OF this True Cons.prems(3) rest, of "select_step maxT x st"]
    show ?thesis using True step by (simp add: add.assoc)
  next
    case False
    have step: "select_step maxT x st = st\<lparr>sel_excluded := sel_excluded st @ [x]\<rparr>"
      using False b by (simp add: select_step_def Cons.prems(5))
    from Cons.IH[OF Cons.prems(1) Cons.prems(2) Cons.prems(3) rest, of "select_step maxT x st"]
    show ?thesis using False step Cons.prems(5) by simp
  qed
qed

lemma set_dedup_fold: "set (snd (fold dedup_step xs st)) \<subseteq> set (snd st) \<union> set xs"
proof (induction xs arbitrary: st)
  case Nil
  then show ?case by simp
next
  case (Cons x xs)
  have "set (snd (dedup_step x st)) \<subseteq> set (snd st) \<union> {x}"
    by (auto simp: dedup_step_def Let_def)
  then show ?case using Cons.IH[of "dedup_step x st"] by auto
qed

lemma set_deduplicate: "set (deduplicate xs) \<subseteq> set xs"
  unfolding deduplicate_def using set_dedup_fold[of xs "([], [])"] by simp

text \<open>
  C1, for token counts that are non-negative integers and an integer budget
  \<open>0 \<le> maxTokens < 2^53\<close>.  The token counts of the returned \<open>sections\<close> add up to
  \<open>usedTokens\<close>, the sum does not exceed \<open>maxTokens\<close>, and the returned sections are
  those the budget rule picks from the deduplicated list: a section is taken when the
  tokens used so far plus its own stay within \<open>maxTokens\<close> and skipped otherwise, and the
  walk continues after a skip.  The sum on the left is the exact sum; in this range every
  sum the code forms is exact, or is too large to pass the test.
\<close>

theorem budget_respected:
  assumes "list_all (\<lambda>s. 0 \<le> tokens s) secs"
    and "0 \<le> maxTokens opts"
    and "maxTokens opts < 2 ^ 53"
  shows "usedTokens (format rt secs opts)
           = Num (sum_list (map tokens (sections (format rt secs opts))))
       \<and> sum_list (map tokens (sections (format rt secs opts))) \<le> maxTokens opts
       \<and> sections (format rt secs opts)
           = greedy_fit (maxTokens opts) 0 (deduplicate (array_sort (compareSections rt) secs))"
proof -
  let ?d = "deduplicate (array_sort (compareSections rt) secs)"
  have "set ?d \<subseteq> set secs" using set_deduplicate set_array_sort by fastforce
  then have nn: "list_all (\<lambda>s. 0 \<le> tokens s) ?d"
    using assms(1) by (auto simp: list_all_iff)
  have "(0::int) \<le> 0" by simp
  from select_fold_exact[OF this assms(2) assms(3) nn,
      of "\<lparr>sel_usedTokens = Num 0, sel_included = [], sel_excluded = []\<rparr>"]
  show ?thesis by (simp add: sections_format select_sections_def)
qed


text \<open>The theorem on the sections of the repository's test, with a budget of 30.\<close>

theorem budget_respected_witness:
  "usedTokens (format example_runtime
      [\<lparr>id_str = ''1'', content = ''First memory'', priority = 1, tokens = 10, source = ''profile''\<rparr>,
       \<lparr>id_str = ''2'', content = ''Second memory'', priority = 2, tokens = 10, source = ''search''\<rparr>,
       \<lparr>id_str = ''3'', content = ''Third memory'', priority = 3, tokens = 15, source = ''recent''\<rparr>]
      \<lparr>maxTokens = 30, includeTokens = True, includeMetadata = True, separator = None\<rparr>) = Num 25
   \<and> sum_list (map tokens (sections (format example_runtime
      [\<lparr>id_str = ''1'', content = ''First memory'', priority = 1, tokens = 10, source = ''profile''\<rparr>,
       \<lparr>id_str = ''2'', content = ''Second memory'', priority = 2, tokens = 10, source = ''search''\<rparr>,
       \<lparr>id_str = ''3'', content = ''Third memory'', priority = 3, tokens = 15, source = ''recent''\<rparr>]
      \<lparr>maxTokens = 30, includeTokens = True, includeMetadata = True, separator = None\<rparr>))) = 25"
proof -
  let ?secs = "[\<lparr>id_str = ''1'', content = ''First memory'', priority = 1, tokens = 10, source = ''profile''\<rparr>,
       \<lparr>id_str = ''2'', content = ''Second memory'', priority = 2, tokens = 10, source = ''search''\<rparr>,
       \<lparr>id_str = ''3'', content = ''Third memory'', priority = 3, tokens = 15, source = ''recent''\<rparr>]"
  let ?opts = "\<lparr>maxTokens = 30, includeTokens = True, includeMetadata = True, separator = None\<rparr>"
  have u: "usedTokens (format example_runtime ?secs ?opts) = Num 25"
    by code_simp
  have p1: "list_all (\<lambda>s. 0 \<le> tokens s) ?secs" by simp
  have p2: "0 \<le> maxTokens ?opts" by simp
  have p3: "maxTokens ?opts < 2 ^ 53" by simp
  have s: "usedTokens (format example_runtime ?secs ?opts)
             = Num (sum_list (map tokens (sections (format example_runtime ?secs ?opts))))"
    using budget_respected[OF p1 p2 p3, of example_runtime] by (rule conjunct1)
  have "sum_list (map tokens (sections (format example_runtime ?secs ?opts))) = 25"
    using s unfolding u by simp
  with u show ?thesis by (rule conjI)
qed

text \<open>
  Outside that range the claim fails, in three ways.  With \<open>maxTokens = -1\<close> and no
  section, \<open>usedTokens\<close> is 0, which exceeds \<open>maxTokens\<close>.  With \<open>maxTokens = 2^53\<close> and
  sections of \<open>2^53\<close> tokens and of 1 token, both are returned and \<open>usedTokens\<close> is
  \<open>2^53\<close>, since \<open>2^53 + 1\<close> is rounded to \<open>2^53\<close>; the token counts add up to
  \<open>2^53 + 1\<close>, more than \<open>maxTokens\<close>.  With \<open>maxTokens = 0\<close> and sections of \<open>-2^53\<close>
  tokens and of \<open>-1\<close> token, both are returned and \<open>usedTokens\<close> is \<open>-2^53\<close>, which is
  not the sum of the token counts.
\<close>

theorem budget_exceeded:
  "usedTokens (format example_runtime []
      \<lparr>maxTokens = - 1, includeTokens = False, includeMetadata = False, separator = None\<rparr>) = Num 0
   \<and> map id_str (sections (format example_runtime
      [\<lparr>id_str = ''a'', content = ''First'', priority = 2, tokens = 9007199254740992, source = ''s''\<rparr>,
       \<lparr>id_str = ''b'', content = ''Second'', priority = 1, tokens = 1, source = ''s''\<rparr>]
      \<lparr>maxTokens = 9007199254740992, includeTokens = False, includeMetadata = False,
        separator = None\<rparr>)) = [''a'', ''b'']
   \<and> usedTokens (format example_runtime
      [\<lparr>id_str = ''a'', content = ''First'', priority = 2, tokens = 9007199254740992, source = ''s''\<rparr>,
       \<lparr>id_str = ''b'', content = ''Second'', priority = 1, tokens = 1, source = ''s''\<rparr>]
      \<lparr>maxTokens = 9007199254740992, includeTokens = False, includeMetadata = False,
        separator = None\<rparr>) = Num 9007199254740992
   \<and> sum_list (map tokens (sections (format example_runtime
      [\<lparr>id_str = ''a'', content = ''First'', priority = 2, tokens = 9007199254740992, source = ''s''\<rparr>,
       \<lparr>id_str = ''b'', content = ''Second'', priority = 1, tokens = 1, source = ''s''\<rparr>]
      \<lparr>maxTokens = 9007199254740992, includeTokens = False, includeMetadata = False,
        separator = None\<rparr>))) = 9007199254740993
   \<and> usedTokens (format example_runtime
      [\<lparr>id_str = ''a'', content = ''First'', priority = 2, tokens = - 9007199254740992, source = ''s''\<rparr>,
       \<lparr>id_str = ''b'', content = ''Second'', priority = 1, tokens = - 1, source = ''s''\<rparr>]
      \<lparr>maxTokens = 0, includeTokens = False, includeMetadata = False,
        separator = None\<rparr>) = Num (- 9007199254740992)
   \<and> sum_list (map tokens (sections (format example_runtime
      [\<lparr>id_str = ''a'', content = ''First'', priority = 2, tokens = - 9007199254740992, source = ''s''\<rparr>,
       \<lparr>id_str = ''b'', content = ''Second'', priority = 1, tokens = - 1, source = ''s''\<rparr>]
      \<lparr>maxTokens = 0, includeTokens = False, includeMetadata = False,
        separator = None\<rparr>))) = - 9007199254740993"
  by code_simp

subsection \<open>The empty input\<close>

lemma trim_summary:
  "trim ([CHR 0x0A] @ ''Total: '' @ x @ ''/'' @ y @ '' tokens'')
     = ''Total: '' @ x @ ''/'' @ y @ '' tokens''"
proof -
  have ws: "isWhitespace (CHR 0x0A)" "\<not> isWhitespace CHR ''T''" "\<not> isWhitespace CHR ''s''"
    by (simp_all add: isWhitespace_def)
  show ?thesis
    by (simp add: trim_def ws)
qed

text \<open>
  C5, as the code has it.  Formatting the empty list gives \<open>usedTokens = 0\<close> and no
  sections under every configuration, all three counts 0 and no sources when metadata is
  requested, and the empty string when \<open>includeTokens\<close> is off.  When \<open>includeTokens\<close>
  is on, the summary line is all there is: \<open>Total: \<close>, the number 0 as the runtime prints
  it, a slash, \<open>maxTokens\<close> as the runtime prints it, and \<open> tokens\<close>.  This holds for
  every runtime and every \<open>maxTokens\<close>.
\<close>

theorem format_empty:
  "usedTokens (format rt [] opts) = Num 0
   \<and> sections (format rt [] opts) = []
   \<and> (includeMetadata opts \<longrightarrow>
        metadata (format rt [] opts)
          = Some \<lparr>totalItems = 0, includedItems = 0, excludedItems = 0, sources = []\<rparr>)
   \<and> (\<not> includeTokens opts \<longrightarrow> formatted (format rt [] opts) = '''')
   \<and> (includeTokens opts \<longrightarrow>
        formatted (format rt [] opts)
          = ''Total: '' @ numberToString rt (Num 0) @ ''/''
              @ numberToString rt (Num (maxTokens opts)) @ '' tokens'')"
proof -
  have t: "trim [] = []" by (simp add: trim_def)
  show ?thesis
    using trim_summary[of "numberToString rt (Num 0)" "numberToString rt (Num (maxTokens opts))"]
    by (simp add: format_def Let_def deduplicate_def array_sort_def select_sections_def
        array_from_set_def t)
qed

text \<open>
  The theorem with metadata and a separator, and with a budget of 7 and tokens, on the
  runtime of the examples.
\<close>

theorem format_empty_witness:
  "formatted (format example_runtime [] \<lparr>maxTokens = 100, includeTokens = False,
        includeMetadata = True, separator = Some '' || ''\<rparr>) = ''''
   \<and> metadata (format example_runtime [] \<lparr>maxTokens = 100, includeTokens = False,
        includeMetadata = True, separator = Some '' || ''\<rparr>)
        = Some \<lparr>totalItems = 0, includedItems = 0, excludedItems = 0, sources = []\<rparr>
   \<and> formatted (format example_runtime [] \<lparr>maxTokens = 7, includeTokens = True,
        includeMetadata = False, separator = None\<rparr>) = ''Total: 0/7 tokens''"
proof -
  have "numberToString example_runtime (Num 7) = ''7''"
       "numberToString example_runtime (Num 0) = ''0''" by code_simp+
  then show ?thesis
    using format_empty[of example_runtime "\<lparr>maxTokens = 100, includeTokens = False,
        includeMetadata = True, separator = Some '' || ''\<rparr>"]
      format_empty[of example_runtime "\<lparr>maxTokens = 7, includeTokens = True,
        includeMetadata = False, separator = None\<rparr>"]
    by simp
qed

text \<open>
  With \<open>includeTokens\<close> on, the empty list does not format to the empty string.
\<close>

theorem format_empty_with_tokens:
  "formatted (format example_runtime [] \<lparr>maxTokens = 100, includeTokens = True,
        includeMetadata = False, separator = None\<rparr>) = ''Total: 0/100 tokens''
   \<and> formatted (format example_runtime [] \<lparr>maxTokens = 100, includeTokens = True,
        includeMetadata = False, separator = None\<rparr>) \<noteq> ''''"
  by code_simp

subsection \<open>The similarity of two strings\<close>

lemma isWhitespace_lower_char: "isWhitespace (lower_char c) = isWhitespace c"
proof -
  have "of_char (char_of (of_char c + 32 :: nat)) = ((of_char c + 32) mod 256 :: nat)"
    by (simp add: of_char_of)
  then show ?thesis
    by (auto simp: isWhitespace_def lower_char_def Let_def)
qed

lemma trim_toLowerCase: "trim (toLowerCase s) = toLowerCase (trim s)"
proof -
  have "isWhitespace \<circ> lower_char = isWhitespace"
    by (rule ext) (simp add: isWhitespace_lower_char)
  then show ?thesis
    by (simp add: trim_def toLowerCase_def dropWhile_map rev_map)
qed

lemma toLowerCase_Nil: "(toLowerCase s = []) = (s = [])"
  by (simp add: toLowerCase_def)

text \<open>
  C4, as the code has it.  When exactly one of the two inputs is empty after trimming,
  the similarity is 0; when the two are equal after trimming and folding case (two inputs
  that are both empty after trimming included), it is 1.
\<close>

theorem similarity_edge_cases:
  "((trim a = [] \<or> trim b = []) \<and> \<not> (trim a = [] \<and> trim b = [])
      \<longrightarrow> calculateSimilarity a b = 0)
   \<and> (toLowerCase (trim a) = toLowerCase (trim b) \<longrightarrow> calculateSimilarity a b = 1)"
proof -
  let ?s1 = "trim (toLowerCase a)" and ?s2 = "trim (toLowerCase b)"
  have e1: "(?s1 = []) = (trim a = [])" and e2: "(?s2 = []) = (trim b = [])"
    by (simp_all add: trim_toLowerCase toLowerCase_Nil)
  have same: "calculateSimilarity a b = 1" if "?s1 = ?s2"
    using that by (simp add: calculateSimilarity_def Let_def)
  have one_empty: "calculateSimilarity a b = 0" if "?s1 \<noteq> ?s2" "?s1 = [] \<or> ?s2 = []"
    using that by (auto simp: calculateSimilarity_def Let_def)
  have "calculateSimilarity a b = 0"
    if "trim a = [] \<or> trim b = []" "\<not> (trim a = [] \<and> trim b = [])"
  proof (rule one_empty)
    from that e1 e2 show "?s1 \<noteq> ?s2" by metis
    from that e1 e2 show "?s1 = [] \<or> ?s2 = []" by simp
  qed
  moreover have "calculateSimilarity a b = 1" if "toLowerCase (trim a) = toLowerCase (trim b)"
    using that by (intro same) (simp add: trim_toLowerCase)
  ultimately show ?thesis by blast
qed

text \<open>The theorem on an empty input, and on two spellings of one phrase.\<close>

theorem similarity_edge_cases_witness:
  "calculateSimilarity '''' ''anything'' = 0
   \<and> calculateSimilarity '' Hello World'' ''hello world  '' = 1"
proof -
  have "trim '''' = []" "trim ''anything'' \<noteq> []"
    "toLowerCase (trim '' Hello World'') = toLowerCase (trim ''hello world  '')"
    by code_simp+
  then show ?thesis
    using similarity_edge_cases[of "''''" "''anything''"]
      similarity_edge_cases[of "'' Hello World''" "''hello world  ''"]
    by simp
qed

text \<open>
  Two inputs that are both empty after trimming are an exact match: the equality test
  comes first, and the similarity is 1, not 0.
\<close>

theorem similarity_both_empty:
  "trim '''' = '''' \<and> trim ''  '' = '''' \<and> calculateSimilarity '''' ''  '' = 1
   \<and> calculateSimilarity '''' ''  '' \<noteq> 0"
  by code_simp

section \<open>Properties of the backend client\<close>

lemma char_eq_of_char: "(c = d) = ((of_char c :: nat) = of_char d)" for c d :: char
  by auto

lemma isTagChar_class: "isTagChar c = (c \<in> set tag_class)"
proof -
  have "(of_char c :: nat) < 256" by simp
  then show ?thesis
    unfolding isTagChar_def tag_class_def Let_def
    by (simp add: char_eq_of_char[of c]) arith
qed

text \<open>
  C9.  Each of the four client operations hands the SDK the container tag with every
  character outside \<open>[A-Za-z0-9_-]\<close> removed (each tag of the list, for the document
  search), so the tag that is sent has characters of that class only.  The debug line
  that is logged before the call has the tag as it was given; the SDK does not.
\<close>

theorem container_tags_sanitized:
  "getProfile c tag q thr
     = client_call (cl_logger c) (''Fetching profile for '' @ tag)
         ''Error fetching profile:'' ''Failed to fetch profile: ''
         (sdk_profile (cl_client c)
            \<lparr>pp_containerTag = filter (\<lambda>ch. ch \<in> set tag_class) tag, pp_q = q\<rparr>)
   \<and> addMemory c txt tag md
     = client_call (cl_logger c) (''Adding memory for '' @ tag)
         ''Error adding memory:'' ''Failed to add memory: ''
         (sdk_add (cl_client c)
            \<lparr>ap_content = txt, ap_containerTag = filter (\<lambda>ch. ch \<in> set tag_class) tag,
             ap_metadata = md\<rparr>)
   \<and> searchMemories c qs tag thr lmt
     = client_call (cl_logger c) (''Searching memories: '' @ qs @ '' in '' @ tag)
         ''Error searching memories:'' ''Failed to search memories: ''
         (sdk_search_memories (cl_client c)
            \<lparr>mp_q = qs, mp_containerTag = filter (\<lambda>ch. ch \<in> set tag_class) tag,
             mp_threshold = thr, mp_limit = limit_or_5 lmt\<rparr>)
   \<and> searchDocuments c qs tags lmt
     = client_call (cl_logger c) (''Searching documents: '' @ qs @ '' in '' @ join '', '' tags)
         ''Error searching documents:'' ''Failed to search documents: ''
         (sdk_search_documents (cl_client c)
            \<lparr>dp_q = qs, dp_containerTags = map (filter (\<lambda>ch. ch \<in> set tag_class)) tags,
             dp_limit = limit_or_5 lmt\<rparr>)
   \<and> sanitizeContainerTag tag = filter (\<lambda>ch. ch \<in> set tag_class) tag
   \<and> set (sanitizeContainerTag tag) \<subseteq> set tag_class"
proof -
  have "isTagChar = (\<lambda>ch. ch \<in> set tag_class)"
    by (rule ext) (rule isTagChar_class)
  then have "sanitizeContainerTag t = filter (\<lambda>ch. ch \<in> set tag_class) t" for t
    by (simp add: sanitizeContainerTag_def)
  then show ?thesis
    by (auto simp: getProfile_def addMemory_def searchMemories_def searchDocuments_def)
qed

section \<open>Properties of the context assembler\<close>

lemma quiet_calls:
  assumes "quiet lg"
  shows "lg_info lg args = None" "lg_error lg args = None" "lg_warn lg args = None"
    "lg_debug lg args = None"
  using assms by (simp_all add: quiet_def)

lemma client_call_quiet:
  assumes "quiet lg"
  shows "client_call lg debugLine errorLine prefix (Inr r) = Inr r"
    and "client_call lg debugLine errorLine prefix (Inl e) = Inl (Error (prefix @ error_message e))"
  by (simp_all add: client_call_def quiet_calls[OF assms])

lemma take_profile_keeps:
  "asm_this (take_profile request p st) = asm_this st
   \<and> recentMemories (asm_context (take_profile request p st)) = recentMemories (asm_context st)
   \<and> set (asm_sources (take_profile request p st)) \<subseteq> insert ''search'' (set (asm_sources st))"
  by (auto simp: take_profile_def Let_def split: option.splits)

lemma check_cache_keeps:
  assumes q: "quiet (opt_logger (options (asm_this st)))"
  shows "\<exists>st'. check_cache clk request st = Inr st'
       \<and> client (asm_this st') = client (asm_this st)
       \<and> options (asm_this st') = options (asm_this st)
       \<and> recentMemories (asm_context st') = recentMemories (asm_context st)
       \<and> set (asm_sources st') \<subseteq> insert ''cache'' (insert ''search'' (set (asm_sources st)))"
proof (cases "cacheEnabled (options (asm_this st))")
  case False
  then show ?thesis by (auto simp: check_cache_def Let_def)
next
  case True
  obtain r pc where g: "lru_get (''profile:'' @ userId request) (cacheGetTime clk)
      (profileCache (asm_this st)) = (r, pc)" by fastforce
  show ?thesis
  proof (cases r)
    case None
    with True g show ?thesis by (auto simp: check_cache_def Let_def)
  next
    case (Some cached)
    let ?st' = "st\<lparr>asm_this := (asm_this st)\<lparr>profileCache := pc\<rparr>,
                         asm_sources := asm_sources st @ [''cache'']\<rparr>"
    have "check_cache clk request st = Inr (take_profile request cached ?st')"
      using True g Some by (simp add: check_cache_def Let_def quiet_calls[OF q])
    then show ?thesis using take_profile_keeps[of request cached ?st'] by auto
  qed
qed

lemma fetch_profile_fails:
  assumes "sdk_profile (cl_client (client (asm_this st)))
             \<lparr>pp_containerTag = sanitizeContainerTag (userId request), pp_q = query request\<rparr> = Inl e"
    and "quiet (opt_logger (options (asm_this st)))"
    and "quiet (cl_logger (client (asm_this st)))"
  shows "fetch_profile clk request st = Inr st"
  using assms(1)
  by (simp add: fetch_profile_def Let_def getProfile_def client_call_quiet[OF assms(3)]
      quiet_calls[OF assms(2)])

lemma fetch_recent_succeeds:
  assumes "not_false (includeRecent request)" "truthy (callId request)"
    "sdk_search_memories (cl_client (client (asm_this st)))
       \<lparr>mp_q = ''recent conversation'', mp_containerTag = sanitizeContainerTag (userId request),
        mp_threshold = Some (searchThreshold (options (asm_this st))), mp_limit = 3\<rparr> = Inr rs"
    and "quiet (cl_logger (client (asm_this st)))"
  shows "\<exists>st'. fetch_recent request st = Inr st'
       \<and> recentMemories (asm_context st') = memories_of rs
       \<and> asm_sources st' = asm_sources st @ [''recent-memories'']
       \<and> asm_this st' = asm_this st"
  using assms(1-3)
  by (simp add: fetch_recent_def Let_def searchMemories_def client_call_quiet[OF assms(4)]
      limit_or_5_def)

lemma finish_quiet:
  assumes "quiet (opt_logger (options (asm_this st)))"
  shows "finish rt clk request st
     = Inr (st\<lparr>asm_context := (asm_context st)\<lparr>fc_metadata := (fc_metadata (asm_context st))
              \<lparr>retrievalTime := endTime clk - startTime clk, md_sources := asm_sources st\<rparr>\<rparr>\<rparr>)"
  by (simp add: finish_def Let_def quiet_calls[OF assms])

text \<open>
  C2, as the code has it.  For a request with \<open>includeRecent\<close> not \<open>false\<close> and a
  non-empty \<open>callId\<close>, and a logger none of whose methods throws: if the backend profile
  call throws and the search for recent memories answers, \<open>getContext\<close> returns a
  context, its \<open>recentMemories\<close> are the memories of the search results, and \<open>profile\<close>
  is not among its sources.  This holds for every state of the cache, every clock and
  every runtime.
\<close>

theorem getContext_survives_profile_failure:
  assumes "not_false (includeRecent request)" and "callId request = Some cid" and "cid \<noteq> []"
    and "quiet (opt_logger (options this))" and "quiet (cl_logger (client this))"
    and "sdk_profile (cl_client (client this))
           \<lparr>pp_containerTag = sanitizeContainerTag (userId request), pp_q = query request\<rparr> = Inl e"
    and "sdk_search_memories (cl_client (client this))
           \<lparr>mp_q = ''recent conversation'', mp_containerTag = sanitizeContainerTag (userId request),
            mp_threshold = Some (searchThreshold (options this)), mp_limit = 3\<rparr> = Inr rs"
  shows "\<exists>ctx. fst (getContext rt clk request this) = Inr ctx
           \<and> recentMemories ctx = memories_of rs
           \<and> ''profile'' \<notin> set (md_sources (fc_metadata ctx))"
proof -
  let ?st0 = "\<lparr>asm_context =
                   \<lparr>fc_profile = None, recentMemories = [], fc_searchResults = [], totalTokens = 0,
                    fc_metadata = \<lparr>md_userId = userId request, retrievalTime = 0, md_sources = []\<rparr>\<rparr>,
                 asm_sources = [], asm_this = this\<rparr>"
  have q0: "quiet (opt_logger (options (asm_this ?st0)))" using assms(4) by simp
  obtain st1 where c: "check_cache clk request ?st0 = Inr st1"
    and k: "client (asm_this st1) = client this" "options (asm_this st1) = options this"
      "set (asm_sources st1) \<subseteq> {''cache'', ''search''}"
    using check_cache_keeps[OF q0, of clk request] by auto
  have fp: "fetch_profile clk request st1 = Inr st1"
    using assms(4,5,6) by (intro fetch_profile_fails[of _ _ e]) (simp_all add: k)
  have t: "truthy (callId request)" using assms(2,3) by (simp add: truthy_def)
  obtain st3 where fr: "fetch_recent request st1 = Inr st3"
    and r: "recentMemories (asm_context st3) = memories_of rs"
      "asm_sources st3 = asm_sources st1 @ [''recent-memories'']"
      "asm_this st3 = asm_this st1"
    using fetch_recent_succeeds[of request st1 rs] assms(1) t assms(5,7) by (auto simp: k)
  have q3: "quiet (opt_logger (options (asm_this st3)))" using assms(4) by (simp add: r k)
  have "fst (getContext rt clk request this)
      = Inr ((asm_context st3)\<lparr>fc_metadata := (fc_metadata (asm_context st3))
               \<lparr>retrievalTime := endTime clk - startTime clk, md_sources := asm_sources st3\<rparr>\<rparr>)"
    by (simp add: getContext_def Let_def and_then_def c fp fr finish_quiet[OF q3])
  moreover have "''profile'' \<notin> set (asm_sources st3)" using r k(3) by auto
  ultimately show ?thesis using r by simp
qed

text \<open>
  The theorem on the example backend, with the logger that only prints, for the call id
  \<open>call-1\<close>.
\<close>

theorem getContext_survives_profile_failure_witness:
  "\<exists>ctx. fst (getContext example_runtime example_clock (example_request (Some ''call-1''))
               (example_memory console)) = Inr ctx
         \<and> recentMemories ctx = [''likes tea'']
         \<and> ''profile'' \<notin> set (md_sources (fc_metadata ctx))"
proof -
  have h1: "not_false (includeRecent (example_request (Some ''call-1'')))"
    and h2: "callId (example_request (Some ''call-1'')) = Some ''call-1''"
    and h3: "''call-1'' \<noteq> []"
    by (simp_all add: example_request_def not_false_def)
  have h4: "quiet (opt_logger (options (example_memory console)))"
    and h5: "quiet (cl_logger (client (example_memory console)))"
    by (simp_all add: example_memory_def quiet_def console_def)
  have h6: "sdk_profile (cl_client (client (example_memory console)))
      \<lparr>pp_containerTag = sanitizeContainerTag (userId (example_request (Some ''call-1''))),
       pp_q = query (example_request (Some ''call-1''))\<rparr> = Inl (Error ''503'')"
    by (simp add: example_memory_def failing_profile_sdk_def)
  have h7: "sdk_search_memories (cl_client (client (example_memory console)))
      \<lparr>mp_q = ''recent conversation'',
       mp_containerTag = sanitizeContainerTag (userId (example_request (Some ''call-1''))),
       mp_threshold = Some (searchThreshold (options (example_memory console))), mp_limit = 3\<rparr>
      = Inr [\<lparr>memory = Some ''likes tea'', score = 9 / 10\<rparr>, \<lparr>memory = None, score = 1 / 2\<rparr>]"
    by (simp add: example_memory_def failing_profile_sdk_def)
  have m: "memories_of [\<lparr>memory = Some ''likes tea'', score = 9 / 10\<rparr>, \<lparr>memory = None, score = 1 / 2\<rparr>]
      = [''likes tea'']"
    by (simp add: memories_of_def)
  show ?thesis
    using getContext_survives_profile_failure[OF h1 h2 h3 h4 h5 h6 h7, of example_runtime example_clock] m
    by simp
qed

text \<open>
  Two requests on the example backend, whose profile call throws and whose search
  answers with a memory.  An empty \<open>callId\<close> counts as none: the guard is the truth
  value of the string, so no search is made and \<open>recentMemories\<close> stays empty.  And with
  a logger whose \<open>warn\<close> throws, what it throws escapes the inner \<open>catch\<close> and
  \<open>getContext\<close> throws \<open>Failed to get context: log file is gone\<close>.
\<close>

theorem getContext_empty_callId:
  "fst (getContext example_runtime example_clock (example_request (Some [])) (example_memory console))
     = Inr \<lparr>fc_profile = None, recentMemories = [], fc_searchResults = [], totalTokens = 0,
            fc_metadata = \<lparr>md_userId = ''+15551234'', retrievalTime = 5, md_sources = []\<rparr>\<rparr>
   \<and> fst (getContext example_runtime example_clock (example_request (Some ''call-1''))
            (example_memory warn_throws))
     = Inl (Error ''Failed to get context: log file is gone'')
   \<and> not_false (includeRecent (example_request (Some [])))
   \<and> not_false (includeRecent (example_request (Some ''call-1'')))
   \<and> sdk_profile failing_profile_sdk
        \<lparr>pp_containerTag = sanitizeContainerTag (userId (example_request (Some []))),
         pp_q = query (example_request (Some []))\<rparr> = Inl (Error ''503'')
   \<and> sdk_search_memories failing_profile_sdk
        \<lparr>mp_q = ''recent conversation'',
         mp_containerTag = sanitizeContainerTag (userId (example_request (Some []))),
         mp_threshold = Some (1 / 2), mp_limit = 3\<rparr>
     = Inr [\<lparr>memory = Some ''likes tea'', score = 9 / 10\<rparr>, \<lparr>memory = None, score = 1 / 2\<rparr>]
   \<and> memories_of [\<lparr>memory = Some ''likes tea'', score = 9 / 10\<rparr>, \<lparr>memory = None, score = 1 / 2\<rparr>]
     = [''likes tea'']"
  by code_simp

end
